theory Spec2Isabelle
  imports Main
begin

chapter \<open>The program\<close>

section \<open>Python strings\<close>

text \<open>
  A Python \<open>str\<close> is a sequence of Unicode code points, so a string is modelled as the
  list of its code points and \<open>length\<close> counts what \<open>len\<close> counts. ASCII literals of
  the source are written through \<open>ascii\<close>; the other literals are given by their code
  points.
\<close>

type_synonym uchar = nat
type_synonym ustr = "uchar list"

definition ascii :: "string \<Rightarrow> ustr" where
  "ascii s = map of_char s"

text \<open>\<open>str.isspace\<close> of one code point; \<open>str.strip()\<close> and the regular expression
  class \<open>\s\<close> on \<open>str\<close> patterns use the same table.\<close>

definition isspace :: "uchar \<Rightarrow> bool" where
  "isspace c \<longleftrightarrow>
     (9 \<le> c \<and> c \<le> 13) \<or> (28 \<le> c \<and> c \<le> 32) \<or> c = 133 \<or> c = 160 \<or> c = 5760 \<or>
     (8192 \<le> c \<and> c \<le> 8202) \<or> c = 8232 \<or> c = 8233 \<or> c = 8239 \<or> c = 8287 \<or> c = 12288"

text \<open>\<open>s.strip()\<close>, \<open>s.strip(chars)\<close> and \<open>s.rstrip(chars)\<close>.\<close>

definition strip_with :: "(uchar \<Rightarrow> bool) \<Rightarrow> ustr \<Rightarrow> ustr" where
  "strip_with P s = rev (dropWhile P (rev (dropWhile P s)))"

definition rstrip_with :: "(uchar \<Rightarrow> bool) \<Rightarrow> ustr \<Rightarrow> ustr" where
  "rstrip_with P s = rev (dropWhile P (rev s))"

definition strip :: "ustr \<Rightarrow> ustr" where
  "strip s = strip_with isspace s"

text \<open>\<open>s.startswith(p)\<close> and \<open>sub in s\<close>.\<close>

fun startswith :: "ustr \<Rightarrow> ustr \<Rightarrow> bool" where
  "startswith s [] = True"
| "startswith [] (p # ps) = False"
| "startswith (c # cs) (p # ps) = (c = p \<and> startswith cs ps)"

fun contains :: "ustr \<Rightarrow> ustr \<Rightarrow> bool" where
  "contains sub [] = (sub = [])"
| "contains sub (c # cs) = (startswith (c # cs) sub \<or> contains sub cs)"

text \<open>\<open>s.split(sep)\<close> for a non-empty separator: the leftmost occurrences, never
  overlapping; the result always has at least one part. (Python raises on an empty
  separator; the source only passes literals.)\<close>

fun split :: "ustr \<Rightarrow> ustr \<Rightarrow> ustr list" where
  "split sep [] = [[]]"
| "split sep (c # cs) =
     (if sep \<noteq> [] \<and> startswith (c # cs) sep
      then [] # split sep (drop (length sep - 1) cs)
      else (case split sep cs of
              [] \<Rightarrow> [[c]]
            | p # ps \<Rightarrow> (c # p) # ps))"

text \<open>\<open>s.split(sep, 1)\<close>: at most one split, at the first occurrence.\<close>

fun split1 :: "ustr \<Rightarrow> ustr \<Rightarrow> ustr list" where
  "split1 sep [] = [[]]"
| "split1 sep (c # cs) =
     (if sep \<noteq> [] \<and> startswith (c # cs) sep
      then [[], drop (length sep - 1) cs]
      else (case split1 sep cs of
              [] \<Rightarrow> [[c]]
            | p # ps \<Rightarrow> (c # p) # ps))"

text \<open>\<open>sep.join(parts)\<close>.\<close>

fun join :: "ustr \<Rightarrow> ustr list \<Rightarrow> ustr" where
  "join sep [] = []"
| "join sep [p] = p"
| "join sep (p # q # ps) = p @ sep @ join sep (q # ps)"

text \<open>\<open>s.replace(old, new, 1)\<close>: the first occurrence only. An empty \<open>old\<close> matches at
  position 0.\<close>

fun replace1 :: "ustr \<Rightarrow> ustr \<Rightarrow> ustr \<Rightarrow> ustr" where
  "replace1 old new [] = (if old = [] then new else [])"
| "replace1 old new (c # cs) =
     (if startswith (c # cs) old then new @ drop (length old) (c # cs)
      else c # replace1 old new cs)"

text \<open>\<open>s.zfill(width)\<close>: pads with \<open>0\<close> on the left up to the width, after a leading
  sign if there is one.\<close>

definition zfill :: "nat \<Rightarrow> ustr \<Rightarrow> ustr" where
  "zfill w s =
     (if w \<le> length s then s
      else (case s of
              [] \<Rightarrow> replicate w 48
            | c # cs \<Rightarrow>
                if c = 43 \<or> c = 45 then c # replicate (w - length s) 48 @ cs
                else replicate (w - length s) 48 @ s))"

text \<open>\<open>s.isdigit()\<close>: the string is not empty and every character has the Unicode
  digit property. The property table \<open>D\<close> belongs to the Unicode database, not to the
  program, and is a parameter.\<close>

definition isdigit :: "(uchar \<Rightarrow> bool) \<Rightarrow> ustr \<Rightarrow> bool" where
  "isdigit D s \<longleftrightarrow> s \<noteq> [] \<and> list_all D s"

text \<open>\<open>str(i)\<close> for a non-negative integer.\<close>

fun str_nat :: "nat \<Rightarrow> ustr" where
  "str_nat n = (if n < 10 then [48 + n] else str_nat (n div 10) @ [48 + n mod 10])"

declare str_nat.simps [simp del]


section \<open>Numeral normalization\<close>

text \<open>The table \<open>DEVA_TO_ENG\<close>: the ten Devanagari digits, then the ten Gujarati
  digits.\<close>

definition DEVA_TO_ENG :: "(uchar \<times> uchar) list" where
  "DEVA_TO_ENG =
     [(2406, 48), (2407, 49), (2408, 50), (2409, 51), (2410, 52),
      (2411, 53), (2412, 54), (2413, 55), (2414, 56), (2415, 57),
      (2790, 48), (2791, 49), (2792, 50), (2793, 51), (2794, 52),
      (2795, 53), (2796, 54), (2797, 55), (2798, 56), (2799, 57)]"

text \<open>\<open>DEVA_TO_ENG.get(c, c)\<close>\<close>

definition deva_char :: "uchar \<Rightarrow> uchar" where
  "deva_char c = (case map_of DEVA_TO_ENG c of None \<Rightarrow> c | Some d \<Rightarrow> d)"

definition deva_to_english :: "ustr \<Rightarrow> ustr" where
  "deva_to_english text = concat (map (\<lambda>c. [deva_char c]) text)"

text \<open>The statement of the specification: a Devanagari digit (U+0966 to U+096F) or a
  Gujarati digit (U+0AE6 to U+0AEF) becomes the ASCII digit of the same value, and any
  other character stays.\<close>

definition ascii_equivalent :: "uchar \<Rightarrow> uchar" where
  "ascii_equivalent c =
     (if 2406 \<le> c \<and> c \<le> 2415 then 48 + (c - 2406)
      else if 2790 \<le> c \<and> c \<le> 2799 then 48 + (c - 2790)
      else c)"


section \<open>Output paths\<close>

record entry_info =
  number :: ustr
  title :: ustr
  url :: ustr
  content :: ustr
  sections :: "(ustr \<times> ustr) list"
  entry_notes :: "ustr list"
  metadata :: "(ustr \<times> ustr) list"

text \<open>\<open>BOOK_CONFIGS\<close>: for every book its listing URL, whether the listing scrolls
  without end, and how the files are organized. (The detail URL pattern and the
  expected count are never read.)\<close>

definition BOOK_CONFIGS :: "(ustr \<times> (ustr \<times> bool \<times> ustr)) list" where
  "BOOK_CONFIGS =
     [(ascii ''shivasutra'', (ascii ''https://ashtadhyayi.com/shivasutra/'', False, ascii ''flat'')),
      (ascii ''sutraani'', (ascii ''https://ashtadhyayi.com/sutraani'', True, ascii ''adhyaya_pada'')),
      (ascii ''dhatu'', (ascii ''https://ashtadhyayi.com/dhatu/'', True, ascii ''gana'')),
      (ascii ''pratyahara'', (ascii ''https://ashtadhyayi.com/pratyahara'', False, ascii ''flat'')),
      (ascii ''ganapatha'', (ascii ''https://ashtadhyayi.com/ganapath/'', True, ascii ''flat'')),
      (ascii ''unadipatha'', (ascii ''https://ashtadhyayi.com/unaadi/'', True, ascii ''flat'')),
      (ascii ''linganushasanam'', (ascii ''https://ashtadhyayi.com/linganushasanam'', False, ascii ''flat'')),
      (ascii ''shiksha'', (ascii ''https://ashtadhyayi.com/shiksha'', False, ascii ''flat''))]"

text \<open>\<open>BOOK_CONFIGS.get(book_type, {}).get('organize_by', 'flat')\<close>\<close>

definition organize_by_of :: "ustr \<Rightarrow> ustr" where
  "organize_by_of book_type =
     (case map_of BOOK_CONFIGS book_type of
        None \<Rightarrow> ascii ''flat''
      | Some (book_url, has_infinite_scroll, organize_by) \<Rightarrow> organize_by)"

definition get_entry_filename :: "(uchar \<Rightarrow> bool) \<Rightarrow> ustr \<Rightarrow> ustr" where
  "get_entry_filename D num =
     (let eng_num = deva_to_english num;
          eng_num' =
            (if 46 \<in> set eng_num
             then join (ascii ''_'') (map (zfill 2) (split (ascii ''.'') eng_num))
             else if isdigit D eng_num then zfill 2 eng_num
             else eng_num)
      in ascii ''entry_'' @ eng_num' @ ascii ''.md'')"

text \<open>The path of an entry's file below the book directory, as \<open>save_to_markdown\<close>
  builds it: the components joined by \<open>/\<close>.\<close>

definition entry_path :: "(uchar \<Rightarrow> bool) \<Rightarrow> ustr \<Rightarrow> ustr \<Rightarrow> ustr" where
  "entry_path D organize_by num =
     (if organize_by = ascii ''adhyaya_pada'' \<and> 46 \<in> set num
      then (case split (ascii ''.'') (deva_to_english num) of
              p0 # p1 # p2 # rest \<Rightarrow>
                (ascii ''adhyaya_'' @ p0) @ ascii ''/'' @ (ascii ''pada_'' @ p1) @ ascii ''/'' @
                (ascii ''sutra_'' @ zfill 3 p2 @ ascii ''.md'')
            | _ \<Rightarrow> get_entry_filename D num)
      else get_entry_filename D num)"


section \<open>Pagination crawl\<close>

text \<open>
  \<open>_scroll_to_load_all\<close>. The browser is outside the program: the number of items that
  the selector finds in iteration \<open>k\<close> (counted from 0) is the input \<open>counts k\<close>. Every
  iteration that does not leave the loop adds one to \<open>scroll_count\<close>, so the iteration
  running in a state is the one numbered by its \<open>scroll_count\<close>. \<open>self.limit\<close> is an
  optional integer, and \<open>None\<close> and \<open>0\<close> are both false in Python.
\<close>

record scroll_state =
  last_count :: nat
  scroll_count :: nat
  no_change_count :: nat

datatype exit_reason = Stalled | LimitReached | CapReached

datatype iteration = Break exit_reason scroll_state | Continue scroll_state

definition limit_set :: "int option \<Rightarrow> bool" where
  "limit_set limit = (case limit of None \<Rightarrow> False | Some l \<Rightarrow> l \<noteq> 0)"

definition limit_reached :: "int option \<Rightarrow> nat \<Rightarrow> bool" where
  "limit_reached limit n = (case limit of None \<Rightarrow> False | Some l \<Rightarrow> l \<noteq> 0 \<and> l \<le> int n)"

text \<open>The body of the \<open>while\<close> loop, for the measured count \<open>current_count\<close>.\<close>

definition scroll_iteration :: "int option \<Rightarrow> nat \<Rightarrow> scroll_state \<Rightarrow> iteration" where
  "scroll_iteration limit current_count st =
     (let st1 = (if current_count = last_count st
                 then st\<lparr>no_change_count := no_change_count st + 1\<rparr>
                 else st\<lparr>no_change_count := 0, last_count := current_count\<rparr>)
      in if current_count = last_count st \<and> 5 \<le> no_change_count st1 then Break Stalled st1
         else if limit_reached limit current_count then Break LimitReached st1
         else Continue (st1\<lparr>scroll_count := scroll_count st1 + 1\<rparr>))"

lemma scroll_iteration_Continue:
  "scroll_iteration limit c st = Continue st' \<Longrightarrow> scroll_count st' = scroll_count st + 1"
  by (auto simp add: scroll_iteration_def Let_def split: if_splits)

function scroll_loop ::
  "nat \<Rightarrow> int option \<Rightarrow> (nat \<Rightarrow> nat) \<Rightarrow> scroll_state \<Rightarrow> exit_reason \<times> scroll_state" where
  "scroll_loop max_scrolls limit counts st =
     (if scroll_count st < max_scrolls
      then (case scroll_iteration limit (counts (scroll_count st)) st of
              Break why st' \<Rightarrow> (why, st')
            | Continue st' \<Rightarrow> scroll_loop max_scrolls limit counts st')
      else (CapReached, st))"
  by pat_completeness auto

termination
  by (relation "measure (\<lambda>(max_scrolls, limit, counts, st). max_scrolls - scroll_count st)")
     (auto dest: scroll_iteration_Continue)

declare scroll_loop.simps [simp del]

definition scroll_to_load_all :: "nat \<Rightarrow> int option \<Rightarrow> (nat \<Rightarrow> nat) \<Rightarrow> exit_reason \<times> scroll_state" where
  "scroll_to_load_all max_scrolls limit counts =
     scroll_loop max_scrolls limit counts \<lparr>last_count = 0, scroll_count = 0, no_change_count = 0\<rparr>"

text \<open>The number of times the loop body has run: every completed iteration is counted
  by \<open>scroll_count\<close>, and leaving by \<open>break\<close> happens inside one more.\<close>

definition iterations :: "exit_reason \<times> scroll_state \<Rightarrow> nat" where
  "iterations r = scroll_count (snd r) + (if fst r = CapReached then 0 else 1)"

text \<open>A listing whose measured count shrinks by one in every iteration.\<close>

definition shrinking :: "nat \<Rightarrow> nat" where
  "shrinking k = 1000 - k"

text \<open>A listing that grows by one item in each of the first five iterations and then
  stays as it is.\<close>

definition plateau :: "nat \<Rightarrow> nat" where
  "plateau k = min k 5"


section \<open>Parsed markup\<close>

text \<open>
  The HTML library is outside the program. What it hands over is modelled as a tree:
  a text node, or an element with its tag name, its \<open>id\<close> attribute, the list of its
  classes, its \<open>href\<close> attribute and its children. The attributes are the ones the
  program reads; the text nodes are the strings that \<open>get_text\<close> visits.
\<close>

datatype node =
  Text ustr
| Elem ustr "ustr option" "ustr list" "ustr option" "node list"

fun tag_of :: "node \<Rightarrow> ustr" where
  "tag_of (Text t) = []"
| "tag_of (Elem tg i cl h ks) = tg"

fun id_of :: "node \<Rightarrow> ustr option" where
  "id_of (Text t) = None"
| "id_of (Elem tg i cl h ks) = i"

fun classes_of :: "node \<Rightarrow> ustr list" where
  "classes_of (Text t) = []"
| "classes_of (Elem tg i cl h ks) = cl"

fun href_of :: "node \<Rightarrow> ustr option" where
  "href_of (Text t) = None"
| "href_of (Elem tg i cl h ks) = h"

fun kids_of :: "node \<Rightarrow> node list" where
  "kids_of (Text t) = []"
| "kids_of (Elem tg i cl h ks) = ks"

text \<open>The strings below a node, in document order.\<close>

fun strings :: "node \<Rightarrow> ustr list" where
  "strings (Text t) = [t]"
| "strings (Elem tg i cl h ks) = concat (map strings ks)"

text \<open>\<open>get_text(strip=True)\<close>: every string stripped, the empty ones dropped, the rest
  concatenated. \<open>get_text(separator=sep)\<close>: the strings as they are, joined.\<close>

definition stripped_strings :: "ustr list \<Rightarrow> ustr" where
  "stripped_strings ss = concat (filter (\<lambda>s. s \<noteq> []) (map strip ss))"

definition get_text_strip :: "node \<Rightarrow> ustr" where
  "get_text_strip n = stripped_strings (strings n)"

definition get_text_sep :: "ustr \<Rightarrow> node list \<Rightarrow> ustr" where
  "get_text_sep sep ns = join sep (concat (map strings ns))"

text \<open>
  \<open>select\<close>: the elements below the given nodes that satisfy \<open>P\<close> and, for a selector
  with a descendant combinator, have an ancestor satisfying \<open>A\<close>; in document order.
  \<open>inside\<close> says whether such an ancestor has been passed. Each element comes with the
  siblings that follow it, which is what \<open>find_next_sibling\<close> walks through.
\<close>

function select_in ::
  "(node \<Rightarrow> bool) \<Rightarrow> (node \<Rightarrow> bool) \<Rightarrow> bool \<Rightarrow> node list \<Rightarrow> (node \<times> node list) list" where
  "select_in A P inside [] = []"
| "select_in A P inside (Text t # ns) = select_in A P inside ns"
| "select_in A P inside (Elem tg i cl h ks # ns) =
     (if inside \<and> P (Elem tg i cl h ks) then [(Elem tg i cl h ks, ns)] else []) @
     select_in A P (inside \<or> A (Elem tg i cl h ks)) ks @
     select_in A P inside ns"
  by pat_completeness auto

termination
  by (relation "measure (\<lambda>(A, P, inside, ns). size_list size ns)") auto

definition select_ctx :: "(node \<Rightarrow> bool) \<Rightarrow> node \<Rightarrow> (node \<times> node list) list" where
  "select_ctx P root = select_in (\<lambda>n. False) P True (kids_of root)"

definition select :: "(node \<Rightarrow> bool) \<Rightarrow> node \<Rightarrow> node list" where
  "select P root = map fst (select_ctx P root)"

definition select_one :: "(node \<Rightarrow> bool) \<Rightarrow> node \<Rightarrow> node option" where
  "select_one P root = (case select P root of [] \<Rightarrow> None | n # ns \<Rightarrow> Some n)"

definition has_class :: "string \<Rightarrow> node \<Rightarrow> bool" where
  "has_class c n \<longleftrightarrow> ascii c \<in> set (classes_of n)"

definition has_tag :: "string \<Rightarrow> node \<Rightarrow> bool" where
  "has_tag t n \<longleftrightarrow> tag_of n = ascii t"

definition has_id :: "string \<Rightarrow> node \<Rightarrow> bool" where
  "has_id i n \<longleftrightarrow> id_of n = Some (ascii i)"

text \<open>\<open>n.get('href', '')\<close>\<close>

definition href_or_empty :: "node \<Rightarrow> ustr" where
  "href_or_empty n = (case href_of n of None \<Rightarrow> [] | Some h \<Rightarrow> h)"


section \<open>Markup to text\<close>

text \<open>The regular expression substitutions of \<open>_html_to_markdown\<close>. \<open>re.sub\<close> replaces
  the leftmost matches, which do not overlap, and every quantifier here is greedy.\<close>

text \<open>\<open>re.sub(r'[ \t]+', ' ', text)\<close>\<close>

function collapse_spaces :: "ustr \<Rightarrow> ustr" where
  "collapse_spaces [] = []"
| "collapse_spaces (c # cs) =
     (if c = 32 \<or> c = 9 then 32 # collapse_spaces (dropWhile (\<lambda>d. d = 32 \<or> d = 9) cs)
      else c # collapse_spaces cs)"
  by pat_completeness auto

termination
  by (relation "measure length") (auto simp add: less_Suc_eq_le length_dropWhile_le)

text \<open>\<open>re.sub(r'\n{3,}', '\n\n', text)\<close>: a run of newlines matches where it starts, if
  it has three of them or more.\<close>

function collapse_newlines :: "ustr \<Rightarrow> ustr" where
  "collapse_newlines [] = []"
| "collapse_newlines (c # cs) =
     (if c = 10 \<and> 2 \<le> length (takeWhile (\<lambda>d. d = 10) cs)
      then 10 # 10 # collapse_newlines (dropWhile (\<lambda>d. d = 10) cs)
      else c # collapse_newlines cs)"
  by pat_completeness auto

termination
  by (relation "measure length") (auto simp add: less_Suc_eq_le length_dropWhile_le)

text \<open>\<open>re.sub(r'\*\*\s*\*\*', '', text)\<close>: two asterisks, any whitespace, two
  asterisks.\<close>

function remove_empty_bold :: "ustr \<Rightarrow> ustr" where
  "remove_empty_bold [] = []"
| "remove_empty_bold (c # cs) =
     (if startswith (c # cs) [42, 42] \<and> startswith (dropWhile isspace (drop 1 cs)) [42, 42]
      then remove_empty_bold (drop 2 (dropWhile isspace (drop 1 cs)))
      else c # remove_empty_bold cs)"
  by pat_completeness auto

termination
proof (relation "measure length")
  fix c :: uchar and cs :: ustr
  have "length (drop 2 (dropWhile isspace (drop 1 cs))) \<le> length (dropWhile isspace (drop 1 cs))"
    by simp
  also have "\<dots> \<le> length (drop 1 cs)"
    by (rule length_dropWhile_le)
  also have "\<dots> \<le> length cs"
    by simp
  finally show "(drop 2 (dropWhile isspace (drop 1 cs)), c # cs) \<in> measure length"
    by simp
qed auto

text \<open>\<open>re.sub(r'\s+([...])', r'\1', text)\<close> for the danda, the double danda, the comma,
  the semicolon, the colon and the full stop: the whitespace before one of them goes.\<close>

definition PUNCT :: "uchar list" where
  "PUNCT = [2404, 2405, 44, 59, 58, 46]"

definition starts_with_punct :: "ustr \<Rightarrow> bool" where
  "starts_with_punct s = (case s of [] \<Rightarrow> False | p # ps \<Rightarrow> p \<in> set PUNCT)"

function fix_punct :: "ustr \<Rightarrow> ustr" where
  "fix_punct [] = []"
| "fix_punct (c # cs) =
     (if isspace c \<and> starts_with_punct (dropWhile isspace cs)
      then fix_punct (dropWhile isspace cs)
      else c # fix_punct cs)"
  by pat_completeness auto

termination
  by (relation "measure length") (auto simp add: less_Suc_eq_le length_dropWhile_le)

text \<open>The sentinel that marks a paragraph boundary, the paragraph break built from it
  and the derivation arrow (U+2192).\<close>

definition PARA_MARK :: ustr where
  "PARA_MARK = [12304, 80, 65, 82, 65, 12305]"

definition PARA_BREAK :: ustr where
  "PARA_BREAK = [10, 10] @ PARA_MARK @ [10, 10]"

definition ARROW :: uchar where
  "ARROW = 8594"

text \<open>The rewriting passes. A pass goes through \<open>soup.select(...)\<close>, which lists the
  matches in document order, and replaces a match by a string; what lies below a
  replaced element leaves the tree with it.\<close>

fun rewrite :: "(node \<Rightarrow> node option) \<Rightarrow> node \<Rightarrow> node" where
  "rewrite r (Text t) = Text t"
| "rewrite r (Elem tg i cl h ks) =
     (case r (Elem tg i cl h ks) of
        Some n \<Rightarrow> n
      | None \<Rightarrow> Elem tg i cl h (map (rewrite r) ks))"

text \<open>A pass of the form \<open>text = e.get_text(strip=True); if text: e.replace_with(...)\<close>.\<close>

definition text_repl :: "(node \<Rightarrow> bool) \<Rightarrow> (ustr \<Rightarrow> ustr) \<Rightarrow> node \<Rightarrow> node option" where
  "text_repl sel fmt n =
     (if sel n
      then (let text = get_text_strip n in if text \<noteq> [] then Some (Text (fmt text)) else None)
      else None)"

definition prakriya_pass :: "node \<Rightarrow> node option" where
  "prakriya_pass =
     text_repl (\<lambda>n. has_class ''prakriya'' n \<or> has_class ''derivation'' n \<or> has_class ''prakriya-box'' n)
       (\<lambda>text. PARA_BREAK @ ascii ''> '' @ text @ PARA_BREAK)"

definition header_pass :: "node \<Rightarrow> node option" where
  "header_pass =
     text_repl (\<lambda>n. has_class ''section-header'' n \<or> has_tag ''h3'' n \<or> has_tag ''h4'' n \<or> has_tag ''h5'' n)
       (\<lambda>text. PARA_BREAK @ ascii ''### '' @ text @ PARA_BREAK)"

definition bold_pass :: "node \<Rightarrow> node option" where
  "bold_pass =
     text_repl (\<lambda>n. has_tag ''b'' n \<or> has_tag ''strong'' n)
       (\<lambda>text. ascii ''**'' @ text @ ascii ''**'')"

definition bold_class_pass :: "node \<Rightarrow> node option" where
  "bold_class_pass =
     text_repl (\<lambda>n. has_class ''font-weight-bold'' n \<or> has_class ''bigtext-font'' n)
       (\<lambda>text. ascii ''**'' @ text @ ascii ''**'')"

definition italic_pass :: "node \<Rightarrow> node option" where
  "italic_pass =
     text_repl (\<lambda>n. has_tag ''i'' n \<or> has_tag ''em'' n)
       (\<lambda>text. ascii ''*'' @ text @ ascii ''*'')"

definition br_pass :: "node \<Rightarrow> node option" where
  "br_pass n = (if has_tag ''br'' n then Some (Text [10]) else None)"

definition separator_pass :: "node \<Rightarrow> node option" where
  "separator_pass n =
     (if has_class ''section-separator'' n \<or> has_tag ''hr'' n
      then Some (Text (PARA_BREAK @ ascii ''---'' @ PARA_BREAK))
      else None)"

definition div_pass :: "node \<Rightarrow> node option" where
  "div_pass =
     text_repl (\<lambda>n. has_tag ''div'' n \<and>
         (has_class ''mt-3'' n \<or> has_class ''mt-4'' n \<or> has_class ''mb-3'' n \<or> has_class ''mb-4'' n))
       (\<lambda>text. PARA_BREAK @ text @ PARA_BREAK)"

definition link_pass :: "node \<Rightarrow> node option" where
  "link_pass n =
     (if has_tag ''a'' n
      then (let text = get_text_strip n; href = href_or_empty n
            in if text \<noteq> [] \<and> href \<noteq> []
               then Some (Text (ascii ''['' @ text @ ascii '']('' @ href @ ascii '')''))
               else if text \<noteq> [] then Some (Text text)
               else None)
      else None)"

definition rewrite_all :: "node list \<Rightarrow> node list" where
  "rewrite_all soup =
     map (rewrite link_pass) (map (rewrite div_pass) (map (rewrite separator_pass)
       (map (rewrite br_pass) (map (rewrite italic_pass) (map (rewrite bold_class_pass)
         (map (rewrite bold_pass) (map (rewrite header_pass) (map (rewrite prakriya_pass)
           soup))))))))"

text \<open>The derivation steps of one paragraph: \<open>i\<close> is the index that \<open>enumerate\<close>
  gives.\<close>

fun format_steps :: "nat \<Rightarrow> ustr list \<Rightarrow> ustr list" where
  "format_steps i [] = []"
| "format_steps i (step # steps) =
     (let s = strip step
      in (if s \<noteq> [] then [if i = 0 then s else ARROW # 32 # s] else []) @
         format_steps (i + 1) steps)"

definition format_para :: "ustr \<Rightarrow> ustr" where
  "format_para para =
     (if ARROW \<in> set para \<and> \<not> startswith para (ascii ''>'')
      then (let steps = split [ARROW] para
            in if 1 < length steps then join [10, 10] (format_steps 0 steps) else para)
      else para)"

fun result_paragraphs :: "ustr list \<Rightarrow> ustr list" where
  "result_paragraphs [] = []"
| "result_paragraphs (p # ps) =
     (let para = strip p
      in if para = [] then result_paragraphs ps
         else format_para para # result_paragraphs ps)"

text \<open>Everything after the rewriting passes: \<open>text\<close> is what
  \<open>soup.get_text(separator=' ')\<close> returned.\<close>

definition clean_text :: "ustr \<Rightarrow> ustr" where
  "clean_text text =
     (let text1 = collapse_spaces text;
          paragraphs = split PARA_MARK text1;
          text2 = join [10, 10] (result_paragraphs paragraphs);
          text3 = collapse_newlines text2;
          text4 = remove_empty_bold text3;
          text5 = fix_punct text4
      in strip text5)"

text \<open>\<open>_html_to_markdown\<close>, on the parsed fragment; the empty list of nodes is the
  empty string \<open>html\<close>.\<close>

definition html_to_markdown :: "node list \<Rightarrow> ustr" where
  "html_to_markdown html =
     (if html = [] then []
      else clean_text (get_text_sep (ascii '' '') (rewrite_all html)))"

text \<open>A string without tags, as the HTML parser returns it: one text node, or nothing
  for the empty string.\<close>

definition plain_text :: "ustr \<Rightarrow> node list" where
  "plain_text t = (if t = [] then [] else [Text t])"



section \<open>Listing parser\<close>

text \<open>
  The dictionary that \<open>_parse_single_entry\<close> returns. The keys \<open>adhyaya\<close>, \<open>pada\<close> and
  \<open>sutra\<close> exist for the book sutraani only and are the field \<open>l_sutra\<close>.
\<close>

record listing =
  l_number :: ustr
  l_title :: ustr
  l_url :: ustr
  l_notes :: "ustr list"
  l_metadata :: "(ustr \<times> ustr) list"
  l_sutra :: "(ustr \<times> ustr \<times> ustr) option"

definition BASE_URL :: ustr where
  "BASE_URL = ascii ''https://ashtadhyayi.com''"

text \<open>The marker of a kaumudi reference and the bullet (U+2022) of a note.\<close>

definition KAUMUDI :: ustr where
  "KAUMUDI = [2325, 2380, 2350, 2369, 2342, 2368]"

definition BULLET :: uchar where
  "BULLET = 8226"

text \<open>\<open>href.strip('/').split('/')\<close>\<close>

definition path_segments :: "ustr \<Rightarrow> ustr list" where
  "path_segments href = split (ascii ''/'') (strip_with (\<lambda>c. c = 47) href)"

text \<open>The notes of a sutra: the elements that follow the anchor up to the next anchor
  (\<open>find_next_sibling()\<close> passes over strings), those whose text starts with a
  bullet.\<close>

fun sibling_notes :: "node list \<Rightarrow> ustr list" where
  "sibling_notes [] = []"
| "sibling_notes (Text t # ns) = sibling_notes ns"
| "sibling_notes (Elem tg i cl h ks # ns) =
     (if tg = ascii ''a'' then []
      else (let text = get_text_strip (Elem tg i cl h ks)
            in (if startswith text [BULLET] then [text] else []) @ sibling_notes ns))"

text \<open>The accepted sutra anchor: everything after the two checks on the path.\<close>

definition sutra_entry :: "node \<Rightarrow> node list \<Rightarrow> ustr \<Rightarrow> ustr \<Rightarrow> ustr \<Rightarrow> listing" where
  "sutra_entry item sibs adhyaya pada sutra_num =
     (let num = (case select_one (\<lambda>n. has_class ''badge'' n \<or> has_class ''font-weight-bold'' n) item of
                   Some badge \<Rightarrow> get_text_strip badge
                 | None \<Rightarrow> adhyaya @ ascii ''.'' @ pada @ ascii ''.'' @ sutra_num);
          title0 = (case select_one (\<lambda>n. has_class ''sutra-text'' n \<or> has_class ''list-item-title'' n \<or>
                        (has_tag ''div'' n \<and> \<not> has_class ''badge'' n \<and> \<not> has_class ''float-right'' n)) item of
                      Some title_elem \<Rightarrow> get_text_strip title_elem
                    | None \<Rightarrow> []);
          kaumudi = (case select_one (\<lambda>n. has_class ''float-right'' n \<or> has_class ''text-right'' n \<or>
                         has_class ''text-dark'' n) item of
                       Some kaumudi_elem \<Rightarrow>
                         (let text = get_text_strip kaumudi_elem
                          in if contains KAUMUDI text then text else [])
                     | None \<Rightarrow> []);
          title1 = (if title0 = []
                    then (let full_text = get_text_strip item;
                              full_text1 = (if num \<noteq> [] then replace1 num [] full_text else full_text);
                              full_text2 = (if kaumudi \<noteq> [] then replace1 kaumudi [] full_text1
                                            else full_text1)
                          in strip full_text2)
                    else title0)
      in \<lparr>l_number = num, l_title = title1, l_url = BASE_URL @ href_or_empty item,
          l_notes = sibling_notes sibs,
          l_metadata = (if kaumudi \<noteq> [] then [(ascii ''kaumudi'', kaumudi)] else []),
          l_sutra = Some (adhyaya, pada, sutra_num)\<rparr>)"

text \<open>An item of a simple book.\<close>

definition flat_entry :: "node \<Rightarrow> listing option" where
  "flat_entry item =
     (if ascii ''bg-light'' \<in> set (classes_of item) then None
      else (case select_one (\<lambda>n. has_tag ''a'' n \<and> href_of n \<noteq> None) item of
              None \<Rightarrow> None
            | Some link \<Rightarrow>
                (let href = href_or_empty link
                 in if href = [] \<or> href = ascii ''#'' then None
                    else Some
                      \<lparr>l_number = (case select_one (has_class ''badge'') item of
                                      Some badge \<Rightarrow> get_text_strip badge | None \<Rightarrow> []),
                       l_title = (case select_one (has_class ''list-item-title'') item of
                                     Some title_elem \<Rightarrow> get_text_strip title_elem | None \<Rightarrow> []),
                       l_url = (if startswith href (ascii ''/'') then BASE_URL @ href
                                else if startswith href (ascii ''http'') then href
                                else BASE_URL @ ascii ''/'' @ href),
                       l_notes = filter (\<lambda>text. text \<noteq> [])
                          (map get_text_strip
                            (select (\<lambda>n. has_class ''list-item-text'' n \<or> has_class ''text-primary'' n) item)),
                       l_metadata = [],
                       l_sutra = None\<rparr>)))"

text \<open>
  \<open>_parse_single_entry\<close>. \<open>int_ok s\<close> says that the builtin \<open>int(s)\<close> returns instead
  of raising \<open>ValueError\<close>; the builtin is not part of the program. \<open>sibs\<close> are the
  siblings after the item. The sutraani branch has no \<open>else\<close> for an item that is not
  an anchor below the prefix: the function then returns \<open>None\<close> by falling off its
  end.
\<close>

definition parse_single_entry ::
  "(ustr \<Rightarrow> bool) \<Rightarrow> ustr \<Rightarrow> node \<Rightarrow> node list \<Rightarrow> listing option" where
  "parse_single_entry int_ok book_type item sibs =
     (if book_type = ascii ''sutraani''
      then (if has_tag ''a'' item \<and> startswith (href_or_empty item) (ascii ''/sutraani/'')
            then (case path_segments (href_or_empty item) of
                    [p0, adhyaya, pada, sutra_num] \<Rightarrow>
                      if int_ok adhyaya \<and> int_ok pada \<and> int_ok sutra_num
                      then Some (sutra_entry item sibs adhyaya pada sutra_num)
                      else None
                  | _ \<Rightarrow> None)
            else None)
      else flat_entry item)"

text \<open>The items that \<open>_parse_entry_links\<close> selects, by book.\<close>

definition sutra_anchor :: "node \<Rightarrow> bool" where
  "sutra_anchor n \<longleftrightarrow>
     has_tag ''a'' n \<and> startswith (href_or_empty n) (ascii ''/sutraani/'') \<and>
     (has_class ''d-block'' n \<or> has_class ''href'' n)"

definition entry_items :: "ustr \<Rightarrow> node \<Rightarrow> (node \<times> node list) list" where
  "entry_items book_type soup =
     (if book_type = ascii ''sutraani'' then select_ctx sutra_anchor soup
      else if book_type = ascii ''dhatu''
      then select_ctx (\<lambda>n. has_tag ''a'' n \<and> startswith (href_or_empty n) (ascii ''/dhatu/'')) soup
      else select_in (has_id ''list-group-content'') (has_class ''list-group-item'') False
             (kids_of soup))"

text \<open>The loop of \<open>_parse_entry_links\<close>, with the results so far.\<close>

fun collect_entries ::
  "(ustr \<Rightarrow> bool) \<Rightarrow> int option \<Rightarrow> ustr \<Rightarrow> listing list \<Rightarrow> (node \<times> node list) list \<Rightarrow> listing list" where
  "collect_entries int_ok limit book_type results [] = results"
| "collect_entries int_ok limit book_type results ((item, sibs) # items) =
     (case parse_single_entry int_ok book_type item sibs of
        None \<Rightarrow> collect_entries int_ok limit book_type results items
      | Some entry_data \<Rightarrow>
          if limit_reached limit (length (results @ [entry_data]))
          then results @ [entry_data]
          else collect_entries int_ok limit book_type (results @ [entry_data]) items)"

definition parse_entry_links :: "(ustr \<Rightarrow> bool) \<Rightarrow> int option \<Rightarrow> ustr \<Rightarrow> node \<Rightarrow> listing list" where
  "parse_entry_links int_ok limit book_type soup =
     collect_entries int_ok limit book_type [] (entry_items book_type soup)"

text \<open>The statement of the specification: the path has exactly four segments and the
  last three are integers.\<close>

definition four_integer_segments :: "(ustr \<Rightarrow> bool) \<Rightarrow> ustr \<Rightarrow> bool" where
  "four_integer_segments int_ok href \<longleftrightarrow>
     length (path_segments href) = 4 \<and> list_all int_ok (drop 1 (path_segments href))"

text \<open>A stand-in for \<open>int\<close> on the strings of ASCII digits, which it accepts, for
  concrete pages.\<close>

definition plain_digits :: "ustr \<Rightarrow> bool" where
  "plain_digits s \<longleftrightarrow> s \<noteq> [] \<and> list_all (\<lambda>c. 48 \<le> c \<and> c \<le> 57) s"

text \<open>A listing page with two sutra anchors.\<close>

definition sutra_link :: "string \<Rightarrow> string \<Rightarrow> node" where
  "sutra_link href label =
     Elem (ascii ''a'') None [ascii ''d-block''] (Some (ascii href)) [Text (ascii label)]"

definition two_sutras :: node where
  "two_sutras =
     Elem (ascii ''[document]'') None [] None
       [sutra_link ''/sutraani/1/1/1'' ''vrddhir'', sutra_link ''/sutraani/1/1/2'' ''aden'']"


section \<open>Detail extractor\<close>

text \<open>The dictionary that \<open>_parse_detail_page\<close> returns. \<open>sections\<close> is a Python \<open>dict\<close>:
  the keys in the order of their first insertion, and an assignment to a key that exists
  replaces its value in place.\<close>

record detail =
  d_number :: ustr
  d_title :: ustr
  d_content :: ustr
  d_sections :: "(ustr \<times> ustr) list"

fun dict_set :: "ustr \<Rightarrow> ustr \<Rightarrow> (ustr \<times> ustr) list \<Rightarrow> (ustr \<times> ustr) list" where
  "dict_set k v [] = [(k, v)]"
| "dict_set k v ((k', v') # d) = (if k' = k then (k, v) # d else (k', v') # dict_set k v d)"

text \<open>The key of the summary section, whose first word is in Devanagari.\<close>

definition SUMMARY_KEY :: ustr where
  "SUMMARY_KEY =
     [2360, 2370, 2340, 2381, 2352, 45, 2357, 2367, 2357, 2352, 2339, 32] @ ascii ''(Summary)''"

definition endswith :: "ustr \<Rightarrow> ustr \<Rightarrow> bool" where
  "endswith s suffix = startswith (rev s) (rev suffix)"

text \<open>The text of the title element, or the empty string without one.\<close>

definition page_title :: "node \<Rightarrow> ustr" where
  "page_title soup =
     (case select_one (\<lambda>n. has_class ''title-font'' n \<or> has_class ''list-group-title'' n) soup of
        Some title_elem \<Rightarrow> get_text_strip title_elem
      | None \<Rightarrow> [])"

text \<open>The number and the title of the entry, from the title of the page.
  \<open>split\<close> with a limit of 1 returns one or two parts.\<close>

definition split_title :: "ustr \<Rightarrow> ustr \<times> ustr" where
  "split_title t =
     (case (if t \<noteq> [] then split1 (ascii '' '') t else [[], []]) of
        [p0] \<Rightarrow> (strip p0, t)
      | p0 # p1 # ps \<Rightarrow> (strip p0, strip p1)
      | [] \<Rightarrow> ([], t))"

text \<open>One row of the summary region: a label and a value, or a short text.\<close>

definition summary_item :: "node \<Rightarrow> ustr list" where
  "summary_item item =
     (case (select_one (\<lambda>n. has_class ''col-3'' n \<or> has_class ''col-4'' n \<or>
                has_class ''text-muted'' n \<or> has_tag ''label'' n) item,
            select_one (\<lambda>n. has_class ''col-9'' n \<or> has_class ''col-8'' n) item) of
        (Some label_elem, Some value_elem) \<Rightarrow>
          (let label = rstrip_with (\<lambda>c. c = 58) (get_text_strip label_elem);
               val = get_text_strip value_elem
           in if label \<noteq> [] \<and> val \<noteq> [] then [ascii ''**'' @ label @ ascii '':** '' @ val] else [])
      | _ \<Rightarrow>
          (let text = get_text_strip item
           in if text \<noteq> [] \<and> length text < 200 then [text] else []))"

definition summary_content :: "node \<Rightarrow> ustr" where
  "summary_content soup =
     (case select_one (has_id ''sutra-summary-region'') soup of
        None \<Rightarrow> []
      | Some summary_region \<Rightarrow>
          (let summary_items = concat (map summary_item
                 (select (\<lambda>n. has_class ''list-group-item'' n \<or> has_class ''row'' n) summary_region))
           in if summary_items \<noteq> [] then join [10, 10] summary_items else []))"

definition short_meaning :: "node \<Rightarrow> ustr" where
  "short_meaning soup =
     (case select_one (\<lambda>n. has_class ''bigtext-font'' n \<or> has_class ''sutra-meaning-short'' n) soup of
        Some short_elem \<Rightarrow> ascii ''**'' @ get_text_strip short_elem @ ascii ''**''
      | None \<Rightarrow> [])"

text \<open>The explanation: the first element of class \<open>sutra-commentary\<close> below the
  sutrartha region, through the transformer; then the short meaning before it.\<close>

definition main_content :: "node \<Rightarrow> ustr" where
  "main_content soup =
     (let main0 =
            (case select_in (has_id ''sutra-commentary-sutrartha-region'')
                    (has_class ''sutra-commentary'') False (kids_of soup) of
               (sutrartha, sibs) # others \<Rightarrow> html_to_markdown (kids_of sutrartha)
             | [] \<Rightarrow> []);
          short = short_meaning soup;
          main1 = (if short \<noteq> [] \<and> main0 \<noteq> [] then short @ [10, 10] @ main0
                   else if short \<noteq> [] then short
                   else main0)
      in if main1 = []
         then (case select_one (\<lambda>n. has_class ''bigtext-font'' n \<or> has_class ''font-weight-bold'' n) soup of
                 Some first_content \<Rightarrow> get_text_strip first_content
               | None \<Rightarrow> [])
         else main1)"

text \<open>One commentary region: skipped when it is the sutrartha region, when it has no
  heading, when it has no commentary element or when its text is blank.\<close>

definition add_region :: "node \<Rightarrow> (ustr \<times> ustr) list \<Rightarrow> (ustr \<times> ustr) list" where
  "add_region region secs =
     (if contains (ascii ''sutrartha'') (case id_of region of None \<Rightarrow> [] | Some i \<Rightarrow> i) then secs
      else (let section_name =
                  (case select_one (has_class ''list-item-title-color'') region of
                     Some title_elem \<Rightarrow> get_text_strip title_elem
                   | None \<Rightarrow> [])
            in if section_name = [] then secs
               else (case select_one (has_class ''sutra-commentary'') region of
                       None \<Rightarrow> secs
                     | Some content_elem \<Rightarrow>
                         (let content_text = html_to_markdown (kids_of content_elem)
                          in if strip content_text \<noteq> [] then dict_set section_name content_text secs
                             else secs))))"

definition commentary_region :: "node \<Rightarrow> bool" where
  "commentary_region n \<longleftrightarrow>
     (case id_of n of
        None \<Rightarrow> False
      | Some i \<Rightarrow> startswith i (ascii ''sutra-commentary-'') \<and> endswith i (ascii ''-region''))"

definition detail_sections :: "node \<Rightarrow> (ustr \<times> ustr) list" where
  "detail_sections soup =
     (let summary = summary_content soup;
          secs0 = (if summary \<noteq> [] then dict_set SUMMARY_KEY summary [] else [])
      in fold add_region (select commentary_region soup) secs0)"

text \<open>\<open>_parse_detail_page\<close>. The page is \<open>None\<close> when \<open>_get_page_source\<close> returned
  nothing, because the load raised or the source was empty.\<close>

definition parse_detail_page :: "node option \<Rightarrow> detail option" where
  "parse_detail_page page =
     (case page of
        None \<Rightarrow> None
      | Some soup \<Rightarrow>
          Some \<lparr>d_number = fst (split_title (page_title soup)),
                d_title = snd (split_title (page_title soup)),
                d_content = main_content soup,
                d_sections = detail_sections soup\<rparr>)"


section \<open>Scraping a book\<close>

record chapter_info =
  ch_number :: ustr
  ch_name :: ustr
  ch_url :: ustr
  ch_entries :: "entry_info list"

record book_info =
  b_name :: ustr
  sanskrit_name :: ustr
  header_shlokas :: "ustr list"
  footer_title :: ustr
  base_url :: ustr
  book_type :: ustr
  chapters :: "chapter_info list"

text \<open>The elements that satisfy \<open>Q\<close>, or that satisfy \<open>P\<close> and are children of an element
  satisfying \<open>A\<close>: a selector list with a child combinator.\<close>

function select_child ::
  "(node \<Rightarrow> bool) \<Rightarrow> (node \<Rightarrow> bool) \<Rightarrow> (node \<Rightarrow> bool) \<Rightarrow> bool \<Rightarrow> node list \<Rightarrow> node list" where
  "select_child A P Q is_child [] = []"
| "select_child A P Q is_child (Text t # ns) = select_child A P Q is_child ns"
| "select_child A P Q is_child (Elem tg i cl h ks # ns) =
     (if (is_child \<and> P (Elem tg i cl h ks)) \<or> Q (Elem tg i cl h ks) then [Elem tg i cl h ks] else []) @
     select_child A P Q (A (Elem tg i cl h ks)) ks @
     select_child A P Q is_child ns"
  by pat_completeness auto

termination
  by (relation "measure (\<lambda>(A, P, Q, is_child, ns). size_list size ns)") auto

text \<open>\<open>_parse_main_page_header\<close>: the title, the header shlokas and the footer.\<close>

definition parse_main_page_header :: "node \<Rightarrow> ustr \<times> ustr list \<times> ustr" where
  "parse_main_page_header soup =
     (let main_title = (case select_one (has_class ''list-group-title'') soup of
                          Some title_elem \<Rightarrow> get_text_strip title_elem | None \<Rightarrow> []);
          header_items = select_child (has_id ''list-group-content'')
             (\<lambda>n. has_class ''bg-light'' n \<and> has_class ''list-group-item'' n)
             (\<lambda>n. has_class ''list-group-item'' n \<and> has_class ''text-center'' n \<and> has_class ''bg-light'' n)
             False (kids_of soup);
          shlokas = filter (\<lambda>text. text \<noteq> [])
             (map get_text_strip
               (filter (\<lambda>item. select_one (\<lambda>n. has_tag ''a'' n \<and> href_of n \<noteq> None) item = None)
                  header_items));
          footer = (case select_one (has_class ''list-group-end-title'') soup of
                      Some footer_elem \<Rightarrow> get_text_strip footer_elem | None \<Rightarrow> [])
      in (main_title, shlokas, footer))"

text \<open>The entry built from the listing summary \<open>data\<close> at position \<open>i\<close> (from 1) and
  the result of the detail page.\<close>

definition build_entry :: "nat \<Rightarrow> listing \<Rightarrow> detail option \<Rightarrow> entry_info" where
  "build_entry i data det =
     (let entry = \<lparr>number = l_number data, title = l_title data, url = l_url data,
                   content = (case det of Some d \<Rightarrow> d_content d | None \<Rightarrow> []),
                   sections = (case det of Some d \<Rightarrow> d_sections d | None \<Rightarrow> []),
                   entry_notes = l_notes data, metadata = l_metadata data\<rparr>;
          entry1 = (if number entry = []
                    then entry\<lparr>number := (case det of Some d \<Rightarrow> d_number d | None \<Rightarrow> str_nat i)\<rparr>
                    else entry);
          entry2 = (if title entry1 = []
                    then entry1\<lparr>title := (case det of Some d \<Rightarrow> d_title d | None \<Rightarrow> [])\<rparr>
                    else entry1)
      in entry2)"

text \<open>\<open>if self.limit and i > self.limit\<close>\<close>

definition limit_exceeded :: "int option \<Rightarrow> nat \<Rightarrow> bool" where
  "limit_exceeded limit i = (case limit of None \<Rightarrow> False | Some l \<Rightarrow> l \<noteq> 0 \<and> l < int i)"

text \<open>The loop over the listing summaries. \<open>pages\<close> is the browser: the parsed source
  of the page at a URL, or \<open>None\<close> when it does not load.\<close>

fun scrape_entries ::
  "int option \<Rightarrow> (ustr \<Rightarrow> node option) \<Rightarrow> nat \<Rightarrow> listing list \<Rightarrow> entry_info list" where
  "scrape_entries limit pages i [] = []"
| "scrape_entries limit pages i (data # entries_data) =
     (if limit_exceeded limit i then []
      else build_entry i data (parse_detail_page (pages (l_url data))) #
           scrape_entries limit pages (i + 1) entries_data)"

datatype error = UnknownBook | DriverFailed | MainPageFailed

text \<open>What the browser does during one run: whether it starts, the listing page after
  loading (if it loads), the listing page after scrolling, and the detail pages.\<close>

record browser =
  driver_starts :: bool
  main_page :: "node option"
  scrolled_page :: node
  detail_pages :: "ustr \<Rightarrow> node option"

definition scrape_book ::
  "(ustr \<Rightarrow> bool) \<Rightarrow> int option \<Rightarrow> browser \<Rightarrow> ustr \<Rightarrow> error + book_info" where
  "scrape_book int_ok limit br book_name =
     (case map_of BOOK_CONFIGS book_name of
        None \<Rightarrow> Inl UnknownBook
      | Some (book_url, has_infinite_scroll, organize_by) \<Rightarrow>
          if \<not> driver_starts br then Inl DriverFailed
          else (case main_page br of
                  None \<Rightarrow> Inl MainPageFailed
                | Some html \<Rightarrow>
                    (let soup = (if has_infinite_scroll then scrolled_page br else html);
                         (title, shlokas, footer) = parse_main_page_header soup;
                         entries_data = parse_entry_links int_ok limit book_name soup;
                         chapter = \<lparr>ch_number = ascii ''1'', ch_name = book_name, ch_url = book_url,
                                    ch_entries = scrape_entries limit (detail_pages br) 1 entries_data\<rparr>
                     in Inr \<lparr>b_name = book_name, sanskrit_name = title, header_shlokas = shlokas,
                             footer_title = footer, base_url = book_url, book_type = book_name,
                             chapters = [chapter]\<rparr>)))"

text \<open>A detail page whose title is the single word 1.1.1, and nothing else.\<close>

definition title_only_page :: node where
  "title_only_page =
     Elem (ascii ''[document]'') None [] None
       [Elem (ascii ''div'') None [ascii ''title-font''] None [Text (ascii '' 1.1.1 '')]]"

text \<open>A detail page with a title, a summary row, a commentary region and a second
  commentary region whose text is blank.\<close>

definition sample_detail_page :: node where
  "sample_detail_page =
     Elem (ascii ''[document]'') None [] None
       [Elem (ascii ''div'') None [ascii ''title-font''] None [Text (ascii ''1.1.1 vrddhir'')],
        Elem (ascii ''div'') (Some (ascii ''sutra-summary-region'')) [] None
          [Elem (ascii ''div'') None [ascii ''row''] None
             [Elem (ascii ''div'') None [ascii ''col-3''] None [Text (ascii ''pada:'')],
              Elem (ascii ''div'') None [ascii ''col-9''] None [Text (ascii ''vrddhih'')]]],
        Elem (ascii ''div'') (Some (ascii ''sutra-commentary-kashika-region'')) [] None
          [Elem (ascii ''div'') None [ascii ''list-item-title-color''] None [Text (ascii ''Kashika'')],
           Elem (ascii ''div'') None [ascii ''sutra-commentary''] None [Text (ascii ''some text'')]],
        Elem (ascii ''div'') (Some (ascii ''sutra-commentary-nyasa-region'')) [] None
          [Elem (ascii ''div'') None [ascii ''list-item-title-color''] None [Text (ascii ''Nyasa'')],
           Elem (ascii ''div'') None [ascii ''sutra-commentary''] None [Text (ascii ''  '')]]]"

text \<open>A listing page of a simple book with one item, which has a link and a title
  but no badge, and a browser that loads this listing and no detail page.\<close>

definition shiva_page :: node where
  "shiva_page =
     Elem (ascii ''[document]'') None [] None
       [Elem (ascii ''div'') (Some (ascii ''list-group-content'')) [] None
          [Elem (ascii ''div'') None [ascii ''list-group-item''] None
             [Elem (ascii ''a'') None [] (Some (ascii ''/shivasutra/1''))
                [Elem (ascii ''div'') None [ascii ''list-item-title''] None [Text (ascii ''aiun'')]]]]]"

definition offline_browser :: browser where
  "offline_browser =
     \<lparr>driver_starts = True, main_page = Some shiva_page, scrolled_page = shiva_page,
      detail_pages = (\<lambda>u. None)\<rparr>"


section \<open>Well-formed numbers\<close>

text \<open>
  What the specification calls a well-formed number, made precise: after the
  normalization to ASCII, one to three segments separated by full stops, each of them
  a decimal numeral, that is a non-empty string of ASCII digits without a leading zero
  in front of other digits.
\<close>

definition ascii_digit :: "uchar \<Rightarrow> bool" where
  "ascii_digit c \<longleftrightarrow> 48 \<le> c \<and> c \<le> 57"

definition wf_segment :: "ustr \<Rightarrow> bool" where
  "wf_segment s \<longleftrightarrow> s \<noteq> [] \<and> list_all ascii_digit s \<and> (1 < length s \<longrightarrow> hd s \<noteq> 48)"

definition wf_number :: "ustr \<Rightarrow> bool" where
  "wf_number n \<longleftrightarrow>
     length (split (ascii ''.'') n) \<le> 3 \<and> list_all wf_segment (split (ascii ''.'') n)"

text \<open>A detail page without any of the elements that the extractor looks for, and two
  listing summaries without a number.\<close>

definition bare_page :: node where
  "bare_page = Elem (ascii ''[document]'') None [] None [Text (ascii ''...'')]"

definition unnumbered :: "string \<Rightarrow> listing" where
  "unnumbered href =
     \<lparr>l_number = [], l_title = ascii ''ka'', l_url = BASE_URL @ ascii href, l_notes = [],
      l_metadata = [], l_sutra = None\<rparr>"


section \<open>Texts that the cleaning leaves alone\<close>







chapter \<open>Properties\<close>

section \<open>Numeral normalization and paths\<close>

lemma deva_char_ascii_equivalent: "deva_char c = ascii_equivalent c"
proof -
  consider "c < 2406" | "2406 \<le> c \<and> c \<le> 2415" | "2415 < c \<and> c < 2790"
    | "2790 \<le> c \<and> c \<le> 2799" | "2799 < c"
    by linarith
  then show ?thesis
  proof cases
    case 2
    then have "c = 2406 \<or> c = 2407 \<or> c = 2408 \<or> c = 2409 \<or> c = 2410 \<or>
        c = 2411 \<or> c = 2412 \<or> c = 2413 \<or> c = 2414 \<or> c = 2415"
      by presburger
    then show ?thesis
      by (elim disjE) (simp_all add: deva_char_def DEVA_TO_ENG_def ascii_equivalent_def)
  next
    case 4
    then have "c = 2790 \<or> c = 2791 \<or> c = 2792 \<or> c = 2793 \<or> c = 2794 \<or>
        c = 2795 \<or> c = 2796 \<or> c = 2797 \<or> c = 2798 \<or> c = 2799"
      by presburger
    then show ?thesis
      by (elim disjE) (simp_all add: deva_char_def DEVA_TO_ENG_def ascii_equivalent_def)
  qed (auto simp add: deva_char_def DEVA_TO_ENG_def ascii_equivalent_def)
qed

text \<open>
  C6. Numeral normalization replaces every Devanagari or Gujarati digit of the input,
  whichever the mix of scripts, by the ASCII digit of the same value and leaves every
  other character where it is.
\<close>

theorem deva_to_english_ascii_digits:
  "deva_to_english s = map ascii_equivalent s"
  by (induction s) (simp_all add: deva_to_english_def deva_char_ascii_equivalent)

text \<open>
  C5. The number 1.2.15 gives the path adhyaya_1/pada_2/sutra_015.md under the
  hierarchical organization (the one of the book sutraani) and the file name
  entry_01_02_15.md under the flat one.
\<close>

theorem path_of_1_2_15:
  "entry_path D (organize_by_of (ascii ''sutraani'')) (ascii ''1.2.15'')
     = ascii ''adhyaya_1/pada_2/sutra_015.md''
   \<and> entry_path D (organize_by_of (ascii ''shivasutra'')) (ascii ''1.2.15'')
     = ascii ''entry_01_02_15.md''
   \<and> get_entry_filename D (ascii ''1.2.15'') = ascii ''entry_01_02_15.md''"
  by (simp add: entry_path_def get_entry_filename_def organize_by_of_def BOOK_CONFIGS_def
      ascii_def deva_to_english_def deva_char_def DEVA_TO_ENG_def zfill_def)

section \<open>Pagination crawl\<close>

lemma scroll_iteration_Break:
  "scroll_iteration limit c st = Break why st' \<Longrightarrow> scroll_count st' = scroll_count st"
  by (auto simp add: scroll_iteration_def Let_def split: if_splits)

lemma scroll_loop_iterations:
  "scroll_count st \<le> m \<Longrightarrow> iterations (scroll_loop m limit counts st) \<le> m"
proof (induction m limit counts st rule: scroll_loop.induct)
  case (1 m limit counts st)
  show ?case
  proof (cases "scroll_count st < m")
    case False
    with 1(2) show ?thesis by (simp add: scroll_loop.simps iterations_def)
  next
    case True
    show ?thesis
    proof (cases "scroll_iteration limit (counts (scroll_count st)) st")
      case (Break why st')
      with True scroll_iteration_Break [OF Break] show ?thesis
        by (simp add: scroll_loop.simps [of m limit counts st] iterations_def)
    next
      case (Continue st')
      then have "scroll_count st' \<le> m"
        using True scroll_iteration_Continue by fastforce
      with 1(1) [OF True Continue] True Continue show ?thesis
        by (simp add: scroll_loop.simps [of m limit counts st])
    qed
  qed
qed

text \<open>The invariant behind the stall rule: once the iteration numbered \<open>k\<close> has run,
  the recorded count is \<open>counts k\<close>, and while the measured count stays there the stall
  counter grows with every iteration.\<close>

lemma scroll_loop_stall:
  assumes same: "\<forall>j. k < j \<and> j \<le> k + 5 \<longrightarrow> counts j = counts k"
    and inv: "scroll_count st \<le> k \<or>
      (scroll_count st \<le> k + 5 \<and> last_count st = counts k \<and>
       scroll_count st \<le> k + 1 + no_change_count st)"
  shows "scroll_count (snd (scroll_loop m limit counts st)) \<le> k + 5"
  using same inv
proof (induction m limit counts st rule: scroll_loop.induct)
  case (1 m limit counts st)
  note same = "1.prems"(1) and inv = "1.prems"(2)
  have bound: "scroll_count st \<le> k + 5"
    using inv by auto
  show ?case
  proof (cases "scroll_count st < m")
    case False
    with bound show ?thesis by (simp add: scroll_loop.simps)
  next
    case True
    show ?thesis
    proof (cases "scroll_iteration limit (counts (scroll_count st)) st")
      case (Break why st')
      with True bound scroll_iteration_Break [OF Break] show ?thesis
        by (simp add: scroll_loop.simps [of m limit counts st])
    next
      case (Continue st')
      have "scroll_count st' \<le> k \<or>
        (scroll_count st' \<le> k + 5 \<and> last_count st' = counts k \<and>
         scroll_count st' \<le> k + 1 + no_change_count st')"
      proof (cases "scroll_count st < k")
        case True
        then show ?thesis using scroll_iteration_Continue [OF Continue] by simp
      next
        case False
        show ?thesis
        proof (cases "scroll_count st = k")
          case True
          with Continue show ?thesis
            by (auto simp add: scroll_iteration_def Let_def split: if_splits)
        next
          case False
          with \<open>\<not> scroll_count st < k\<close> inv
          have j: "k < scroll_count st" "scroll_count st \<le> k + 5"
            "last_count st = counts k" "scroll_count st \<le> k + 1 + no_change_count st"
            by auto
          with same have "counts (scroll_count st) = last_count st"
            by simp
          with Continue j show ?thesis
            by (auto simp add: scroll_iteration_def Let_def split: if_splits)
        qed
      qed
      with "1.IH" [OF True Continue same] True Continue show ?thesis
        by (simp add: scroll_loop.simps [of m limit counts st])
    qed
  qed
qed

lemma scroll_loop_limit:
  assumes lim: "limit_reached limit (counts k)"
    and inv: "scroll_count st \<le> k"
  shows "scroll_count (snd (scroll_loop m limit counts st)) \<le> k"
  using lim inv
proof (induction m limit counts st rule: scroll_loop.induct)
  case (1 m limit counts st)
  note lim = "1.prems"(1) and inv = "1.prems"(2)
  show ?case
  proof (cases "scroll_count st < m")
    case False
    with inv show ?thesis by (simp add: scroll_loop.simps)
  next
    case True
    show ?thesis
    proof (cases "scroll_iteration limit (counts (scroll_count st)) st")
      case (Break why st')
      with True inv scroll_iteration_Break [OF Break] show ?thesis
        by (simp add: scroll_loop.simps [of m limit counts st])
    next
      case (Continue st')
      have "scroll_count st \<noteq> k"
        using Continue lim
        by (auto simp add: scroll_iteration_def Let_def split: if_splits)
      with inv have "scroll_count st' \<le> k"
        using scroll_iteration_Continue [OF Continue] by simp
      with "1.IH" [OF True Continue lim] True Continue show ?thesis
        by (simp add: scroll_loop.simps [of m limit counts st])
    qed
  qed
qed

lemma scroll_loop_changing:
  assumes none: "limit = None"
    and chg: "\<forall>j<m. counts (Suc j) \<noteq> counts j"
    and inv: "scroll_count st < m \<longrightarrow> last_count st \<noteq> counts (scroll_count st)"
      "scroll_count st \<le> m"
  shows "fst (scroll_loop m limit counts st) = CapReached \<and>
         scroll_count (snd (scroll_loop m limit counts st)) = m"
  using none chg inv
proof (induction m limit counts st rule: scroll_loop.induct)
  case (1 m limit counts st)
  note none = "1.prems"(1) and chg = "1.prems"(2) and inv = "1.prems"(3,4)
  show ?case
  proof (cases "scroll_count st < m")
    case False
    with inv show ?thesis by (simp add: scroll_loop.simps)
  next
    case True
    with inv have ne: "last_count st \<noteq> counts (scroll_count st)"
      by simp
    then have step: "scroll_iteration limit (counts (scroll_count st)) st =
      Continue (st\<lparr>no_change_count := 0, last_count := counts (scroll_count st),
                   scroll_count := scroll_count st + 1\<rparr>)"
      using none by (auto simp add: scroll_iteration_def Let_def limit_reached_def)
    let ?st' = "st\<lparr>no_change_count := 0, last_count := counts (scroll_count st),
                   scroll_count := scroll_count st + 1\<rparr>"
    have "scroll_count ?st' < m \<longrightarrow> last_count ?st' \<noteq> counts (scroll_count ?st')"
      using chg True by auto
    moreover have "scroll_count ?st' \<le> m"
      using True by simp
    ultimately show ?thesis
      using "1.IH" [OF True step none chg] True step
      by (simp add: scroll_loop.simps [of m limit counts st])
  qed
qed

text \<open>
  C4, as the claim states it, fails: the stall counter counts iterations whose count
  equals the recorded one, and a count that shrinks is a change like any other. On
  the listing \<open>shrinking\<close> the count does not grow in any of the iterations 1 to 5 (nor
  later), and the loop still runs all 500 scrolls.
\<close>

theorem scroll_shrinking_runs_to_cap:
  "shrinking 1 < shrinking 0 \<and> shrinking 2 < shrinking 1 \<and> shrinking 3 < shrinking 2 \<and>
   shrinking 4 < shrinking 3 \<and> shrinking 5 < shrinking 4 \<and>
   fst (scroll_to_load_all 500 None shrinking) = CapReached \<and>
   scroll_count (snd (scroll_to_load_all 500 None shrinking)) = 500"
proof -
  have "\<forall>j<500. shrinking (Suc j) \<noteq> shrinking j"
    by (auto simp add: shrinking_def)
  with refl have "fst (scroll_loop 500 None shrinking
        \<lparr>last_count = 0, scroll_count = 0, no_change_count = 0\<rparr>) = CapReached \<and>
      scroll_count (snd (scroll_loop 500 None shrinking
        \<lparr>last_count = 0, scroll_count = 0, no_change_count = 0\<rparr>)) = 500"
    by (intro scroll_loop_changing) (simp_all add: shrinking_def)
  then show ?thesis
    by (simp add: scroll_to_load_all_def shrinking_def)
qed

text \<open>
  C4, amended. The crawl loop always terminates (\<open>scroll_loop\<close> is a total function)
  and its body runs at most \<open>max_scrolls\<close> times, 500 by default. It stops once the
  measured count has stayed the same for 5 consecutive iterations, that is within 5
  iterations of the last change; the stall counter is reset to zero whenever the
  measured count differs from the recorded one, whether it grew or shrank. It stops
  in the iteration where a configured (non-zero) limit is reached, if not before.
\<close>

theorem scroll_to_load_all_stops:
  "iterations (scroll_to_load_all m limit counts) \<le> m
   \<and> ((\<forall>j. k < j \<and> j \<le> k + 5 \<longrightarrow> counts j = counts k) \<longrightarrow>
        scroll_count (snd (scroll_to_load_all m limit counts)) \<le> k + 5)
   \<and> (c \<noteq> last_count st \<longrightarrow>
        (case scroll_iteration limit c st of
           Break why st' \<Rightarrow> no_change_count st' = 0 \<and> last_count st' = c
         | Continue st' \<Rightarrow> no_change_count st' = 0 \<and> last_count st' = c))
   \<and> (limit = Some l \<and> l \<noteq> 0 \<and> l \<le> int (counts k) \<longrightarrow>
        scroll_count (snd (scroll_to_load_all m limit counts)) \<le> k)"
proof (intro conjI impI)
  show "iterations (scroll_to_load_all m limit counts) \<le> m"
    unfolding scroll_to_load_all_def by (rule scroll_loop_iterations) simp
next
  assume "\<forall>j. k < j \<and> j \<le> k + 5 \<longrightarrow> counts j = counts k"
  then show "scroll_count (snd (scroll_to_load_all m limit counts)) \<le> k + 5"
    unfolding scroll_to_load_all_def by (rule scroll_loop_stall) simp
next
  assume "c \<noteq> last_count st"
  then show "case scroll_iteration limit c st of
      Break why st' \<Rightarrow> no_change_count st' = 0 \<and> last_count st' = c
    | Continue st' \<Rightarrow> no_change_count st' = 0 \<and> last_count st' = c"
    by (simp add: scroll_iteration_def Let_def)
next
  assume "limit = Some l \<and> l \<noteq> 0 \<and> l \<le> int (counts k)"
  then show "scroll_count (snd (scroll_to_load_all m limit counts)) \<le> k"
    unfolding scroll_to_load_all_def by (intro scroll_loop_limit) (simp_all add: limit_reached_def)
qed

theorem scroll_to_load_all_stops_witness:
  "iterations (scroll_to_load_all 500 (Some 3) plateau) \<le> 500
   \<and> scroll_count (snd (scroll_to_load_all 500 (Some 3) plateau)) \<le> 5 + 5
   \<and> (case scroll_iteration (Some 3) 1 \<lparr>last_count = 0, scroll_count = 1, no_change_count = 1\<rparr> of
        Break why st' \<Rightarrow> no_change_count st' = 0 \<and> last_count st' = 1
      | Continue st' \<Rightarrow> no_change_count st' = 0 \<and> last_count st' = 1)
   \<and> scroll_count (snd (scroll_to_load_all 500 (Some 3) plateau)) \<le> 5"
  using scroll_to_load_all_stops [of 500 "Some 3" plateau 5 1
      "\<lparr>last_count = 0, scroll_count = 1, no_change_count = 1\<rparr>" 3]
  by (simp add: plateau_def)

section \<open>Markup to text\<close>

lemmas text_defs = html_to_markdown_def plain_text_def clean_text_def get_text_sep_def
  rewrite_all_def format_para_def strip_def strip_with_def isspace_def ascii_def
  PARA_MARK_def PARA_BREAK_def ARROW_def starts_with_punct_def PUNCT_def Let_def


text \<open>
  C9. The text a \<rightarrow> b \<rightarrow> c, which has no markup, becomes the three lines a,
  \<rightarrow> b and \<rightarrow> c with an empty line between each line and the next.
\<close>

theorem arrow_steps_on_lines:
  "html_to_markdown (plain_text (ascii ''a '' @ [ARROW] @ ascii '' b '' @ [ARROW] @ ascii '' c''))
     = join [10] [ascii ''a'', [], ARROW # ascii '' b'', [], ARROW # ascii '' c'']"
  by (simp add: text_defs)


section \<open>Listing parser\<close>

lemma parse_single_entry_sutraani:
  "parse_single_entry int_ok (ascii ''sutraani'') item sibs =
     (if has_tag ''a'' item \<and> startswith (href_or_empty item) (ascii ''/sutraani/'') \<and>
         four_integer_segments int_ok (href_or_empty item)
      then (case path_segments (href_or_empty item) of
              [p0, adhyaya, pada, sutra_num] \<Rightarrow> Some (sutra_entry item sibs adhyaya pada sutra_num)
            | _ \<Rightarrow> None)
      else None)"
  by (auto simp add: parse_single_entry_def four_integer_segments_def
      split: list.splits)

lemma parse_single_entry_None:
  "parse_single_entry int_ok (ascii ''sutraani'') item sibs = None \<longleftrightarrow>
     \<not> (has_tag ''a'' item \<and> startswith (href_or_empty item) (ascii ''/sutraani/'') \<and>
        four_integer_segments int_ok (href_or_empty item))"
  by (auto simp add: parse_single_entry_def four_integer_segments_def
      split: list.splits)

lemma select_in_sat:
  "(n, sibs) \<in> set (select_in A P inside ns) \<Longrightarrow> P n"
  by (induction A P inside ns rule: select_in.induct) (auto split: if_splits)

lemma collect_entries_sound:
  "r \<in> set (collect_entries int_ok limit bt results items) \<Longrightarrow>
     r \<in> set results \<or>
     (\<exists>(item, sibs) \<in> set items. parse_single_entry int_ok bt item sibs = Some r)"
proof (induction items arbitrary: results)
  case Nil
  then show ?case by simp
next
  case (Cons it items)
  obtain item sibs where it: "it = (item, sibs)"
    by (cases it)
  show ?case
  proof (cases "parse_single_entry int_ok bt item sibs")
    case None
    with Cons it show ?thesis by auto
  next
    case (Some e)
    show ?thesis
    proof (cases "limit_reached limit (length (results @ [e]))")
      case True
      with Cons.prems it Some show ?thesis by auto
    next
      case False
      with Cons.prems it Some
      have "r \<in> set (collect_entries int_ok limit bt (results @ [e]) items)"
        by simp
      from Cons.IH [OF this] it Some show ?thesis by auto
    qed
  qed
qed

lemma collect_entries_no_limit:
  "\<not> limit_set limit \<Longrightarrow>
     collect_entries int_ok limit bt results items =
       results @ List.map_filter (\<lambda>(item, sibs). parse_single_entry int_ok bt item sibs) items"
proof (induction items arbitrary: results)
  case Nil
  then show ?case by (simp add: List.map_filter_simps)
next
  case (Cons it items)
  have nl: "\<And>n. \<not> limit_reached limit n"
    using Cons.prems by (auto simp add: limit_set_def limit_reached_def split: option.splits)
  obtain item sibs where it: "it = (item, sibs)"
    by (cases it)
  show ?case
    using Cons.IH [OF Cons.prems] it nl
    by (simp add: List.map_filter_simps split: option.splits)
qed

text \<open>
  C3, as the claim states it, fails in its second half: the listing parse stops at
  the configured limit, so with a limit of 1 the second of two well-formed sutra
  anchors is not in the results.
\<close>

theorem parse_entry_links_limit_excludes:
  "sutra_anchor (sutra_link ''/sutraani/1/1/2'' ''aden'')
   \<and> four_integer_segments plain_digits (ascii ''/sutraani/1/1/2'')
   \<and> map l_url (parse_entry_links plain_digits (Some 1) (ascii ''sutraani'') two_sutras)
       = [ascii ''https://ashtadhyayi.com/sutraani/1/1/1'']"
  by (simp add: parse_entry_links_def entry_items_def select_ctx_def two_sutras_def
      sutra_link_def sutra_anchor_def has_tag_def has_class_def href_or_empty_def
      parse_single_entry_def path_segments_def strip_with_def plain_digits_def
      sutra_entry_def limit_reached_def four_integer_segments_def BASE_URL_def ascii_def
      Let_def)

text \<open>
  C3, amended. For the book sutraani an item is rejected exactly when it is not an
  anchor below the sutraani prefix whose path has four segments with the last three
  parseable as integers; every result of the listing parse comes from a selected
  anchor of that form; and when no limit is configured every selected anchor of that
  form has its entry among the results.
\<close>

theorem sutra_links_filtered:
  "(parse_single_entry int_ok (ascii ''sutraani'') item sibs = None \<longleftrightarrow>
      \<not> (has_tag ''a'' item \<and> startswith (href_or_empty item) (ascii ''/sutraani/'') \<and>
         four_integer_segments int_ok (href_or_empty item)))
   \<and> (\<forall>r \<in> set (parse_entry_links int_ok limit (ascii ''sutraani'') soup).
        \<exists>(a, sibs) \<in> set (select_ctx sutra_anchor soup).
          four_integer_segments int_ok (href_or_empty a) \<and>
          parse_single_entry int_ok (ascii ''sutraani'') a sibs = Some r)
   \<and> (\<not> limit_set limit \<longrightarrow>
        (\<forall>(a, sibs) \<in> set (select_ctx sutra_anchor soup).
           four_integer_segments int_ok (href_or_empty a) \<longrightarrow>
           (\<exists>r \<in> set (parse_entry_links int_ok limit (ascii ''sutraani'') soup).
              parse_single_entry int_ok (ascii ''sutraani'') a sibs = Some r)))"
proof (intro conjI ballI impI)
  show "parse_single_entry int_ok (ascii ''sutraani'') item sibs = None \<longleftrightarrow>
      \<not> (has_tag ''a'' item \<and> startswith (href_or_empty item) (ascii ''/sutraani/'') \<and>
         four_integer_segments int_ok (href_or_empty item))"
    by (rule parse_single_entry_None)
next
  fix r
  assume "r \<in> set (parse_entry_links int_ok limit (ascii ''sutraani'') soup)"
  then have "\<exists>(a, sibs) \<in> set (select_ctx sutra_anchor soup).
      parse_single_entry int_ok (ascii ''sutraani'') a sibs = Some r"
    using collect_entries_sound [of r int_ok limit "ascii ''sutraani''" "[]"]
    by (simp add: parse_entry_links_def entry_items_def)
  then obtain a sibs where a: "(a, sibs) \<in> set (select_ctx sutra_anchor soup)"
      "parse_single_entry int_ok (ascii ''sutraani'') a sibs = Some r"
    by auto
  from a(2) have "four_integer_segments int_ok (href_or_empty a)"
    using parse_single_entry_None [of int_ok a sibs] by auto
  with a show "\<exists>(a, sibs) \<in> set (select_ctx sutra_anchor soup).
      four_integer_segments int_ok (href_or_empty a) \<and>
      parse_single_entry int_ok (ascii ''sutraani'') a sibs = Some r"
    by auto
next
  fix x
  assume nl: "\<not> limit_set limit" and x: "x \<in> set (select_ctx sutra_anchor soup)"
  obtain a sibs where xa: "x = (a, sibs)"
    by (cases x)
  have res: "parse_entry_links int_ok limit (ascii ''sutraani'') soup =
      List.map_filter (\<lambda>(item, sibs). parse_single_entry int_ok (ascii ''sutraani'') item sibs)
        (select_ctx sutra_anchor soup)"
    using collect_entries_no_limit [OF nl, of int_ok "ascii ''sutraani''" "[]"]
    by (simp add: parse_entry_links_def entry_items_def)
  have sel: "sutra_anchor a"
    using x xa select_in_sat [of a sibs "\<lambda>n. False" sutra_anchor True "kids_of soup"]
    by (simp add: select_ctx_def)
  show "case x of (a, sibs) \<Rightarrow>
      four_integer_segments int_ok (href_or_empty a) \<longrightarrow>
      (\<exists>r \<in> set (parse_entry_links int_ok limit (ascii ''sutraani'') soup).
         parse_single_entry int_ok (ascii ''sutraani'') a sibs = Some r)"
  proof (simp only: xa prod.case, intro impI)
    assume "four_integer_segments int_ok (href_or_empty a)"
    with sel have "parse_single_entry int_ok (ascii ''sutraani'') a sibs \<noteq> None"
      using parse_single_entry_None [of int_ok a sibs] by (simp add: sutra_anchor_def)
    then obtain r where r: "parse_single_entry int_ok (ascii ''sutraani'') a sibs = Some r"
      by auto
    with x xa have "r \<in> set (parse_entry_links int_ok limit (ascii ''sutraani'') soup)"
      unfolding res by (force simp add: List.map_filter_def)
    with r show "\<exists>r \<in> set (parse_entry_links int_ok limit (ascii ''sutraani'') soup).
        parse_single_entry int_ok (ascii ''sutraani'') a sibs = Some r"
      by auto
  qed
qed

theorem sutra_links_filtered_witness:
  "(sutra_link ''/sutraani/1/1/2'' ''aden'', []) \<in> set (select_ctx sutra_anchor two_sutras)
   \<and> four_integer_segments plain_digits (ascii ''/sutraani/1/1/2'')
   \<and> parse_single_entry plain_digits (ascii ''sutraani'')
        (sutra_link ''/sutraani/x/1/2'' ''aden'') [] = None
   \<and> set (parse_entry_links plain_digits None (ascii ''sutraani'') two_sutras) \<noteq> {}"
proof -
  note inst = sutra_links_filtered [of plain_digits "sutra_link ''/sutraani/x/1/2'' ''aden''" "[]"
      None two_sutras]
  have nl: "\<not> limit_set None"
    by (simp add: limit_set_def)
  have mem: "(sutra_link ''/sutraani/1/1/2'' ''aden'', []) \<in> set (select_ctx sutra_anchor two_sutras)"
    by (simp add: select_ctx_def two_sutras_def sutra_link_def sutra_anchor_def has_tag_def
        has_class_def href_or_empty_def ascii_def)
  have four: "four_integer_segments plain_digits (ascii ''/sutraani/1/1/2'')"
    by (simp add: four_integer_segments_def path_segments_def strip_with_def plain_digits_def
        ascii_def)
  have href: "href_or_empty (sutra_link ''/sutraani/1/1/2'' ''aden'') = ascii ''/sutraani/1/1/2''"
    by (simp add: sutra_link_def href_or_empty_def)
  have bad: "\<not> four_integer_segments plain_digits
      (href_or_empty (sutra_link ''/sutraani/x/1/2'' ''aden''))"
    by (simp add: four_integer_segments_def path_segments_def strip_with_def plain_digits_def
        ascii_def sutra_link_def href_or_empty_def)
  from inst nl mem four href
  have ex: "\<exists>r \<in> set (parse_entry_links plain_digits None (ascii ''sutraani'') two_sutras).
      parse_single_entry plain_digits (ascii ''sutraani'')
        (sutra_link ''/sutraani/1/1/2'' ''aden'') [] = Some r"
    by force
  from inst bad have none: "parse_single_entry plain_digits (ascii ''sutraani'')
        (sutra_link ''/sutraani/x/1/2'' ''aden'') [] = None"
    by blast
  from ex have "set (parse_entry_links plain_digits None (ascii ''sutraani'') two_sutras) \<noteq> {}"
    by auto
  with mem four none show ?thesis
    by blast
qed

section \<open>Stripped text\<close>

lemma last_dropWhile:
  "dropWhile P xs \<noteq> [] \<Longrightarrow> last (dropWhile P xs) = last xs"
proof (induction xs)
  case Nil
  then show ?case by simp
next
  case (Cons x xs)
  show ?case
  proof (cases "P x")
    case True
    with Cons.prems have "dropWhile P xs \<noteq> []"
      by simp
    moreover from this have "xs \<noteq> []"
      by auto
    ultimately show ?thesis
      using Cons.IH True by simp
  next
    case False
    then show ?thesis by simp
  qed
qed

lemma strip_with_ends:
  assumes "strip_with P s \<noteq> []"
  shows "\<not> P (hd (strip_with P s)) \<and> \<not> P (last (strip_with P s))"
proof -
  let ?t = "dropWhile P s"
  let ?u = "dropWhile P (rev ?t)"
  from assms have u: "?u \<noteq> []"
    by (simp add: strip_with_def)
  then have t: "?t \<noteq> []"
    by (metis dropWhile.simps(1) rev.simps(1))
  have "\<not> P (hd ?u)"
    using u by (rule hd_dropWhile)
  moreover have "last ?u = last (rev ?t)"
    using u by (rule last_dropWhile)
  moreover have "last (rev ?t) = hd ?t"
    using t by (simp add: last_rev)
  moreover have "\<not> P (hd ?t)"
    using t by (rule hd_dropWhile)
  ultimately show ?thesis
    using u by (simp add: strip_with_def hd_rev last_rev)
qed

lemma strip_with_id:
  assumes "s = [] \<or> (\<not> P (hd s) \<and> \<not> P (last s))"
  shows "strip_with P s = s"
proof (cases "s = []")
  case True
  then show ?thesis by (simp add: strip_with_def)
next
  case False
  with assms have "\<not> P (hd s)" "\<not> P (hd (rev s))"
    by (auto simp add: hd_rev)
  with False have "dropWhile P s = s" "dropWhile P (rev s) = rev s"
    by (simp_all add: dropWhile_eq_self_iff)
  then show ?thesis
    by (simp add: strip_with_def)
qed

lemma concat_ends:
  assumes "\<forall>x \<in> set xs. x \<noteq> [] \<and> \<not> P (hd x) \<and> \<not> P (last x)" and "concat xs \<noteq> []"
  shows "\<not> P (hd (concat xs)) \<and> \<not> P (last (concat xs))"
  using assms
proof (induction xs)
  case Nil
  then show ?case by simp
next
  case (Cons x xs)
  then have x: "x \<noteq> []" "\<not> P (hd x)" "\<not> P (last x)"
    by auto
  show ?case
  proof (cases "concat xs = []")
    case True
    with x show ?thesis by simp
  next
    case False
    with Cons have "\<not> P (last (concat xs))"
      by auto
    with x False show ?thesis by simp
  qed
qed

lemma stripped_strings_ends:
  assumes "stripped_strings ss \<noteq> []"
  shows "\<not> isspace (hd (stripped_strings ss)) \<and> \<not> isspace (last (stripped_strings ss))"
proof -
  have "\<forall>x \<in> set (filter (\<lambda>s. s \<noteq> []) (map strip ss)).
      x \<noteq> [] \<and> \<not> isspace (hd x) \<and> \<not> isspace (last x)"
    using strip_with_ends [of isspace] by (auto simp add: strip_def)
  from concat_ends [OF this] assms show ?thesis
    unfolding stripped_strings_def by simp
qed

lemma strip_get_text_strip: "strip (get_text_strip n) = get_text_strip n"
  unfolding strip_def get_text_strip_def
  using stripped_strings_ends [of "strings n"] by (intro strip_with_id) auto

lemma get_text_strip_not_blank:
  "get_text_strip n \<noteq> [] \<Longrightarrow> \<not> list_all isspace (get_text_strip n)"
  unfolding get_text_strip_def
  using stripped_strings_ends [of "strings n"]
  by (cases "stripped_strings (strings n)") auto

lemma strip_not_blank: "strip s \<noteq> [] \<Longrightarrow> \<not> list_all isspace s"
proof
  assume "strip s \<noteq> []" and "list_all isspace s"
  then have "dropWhile isspace s = []"
    by (simp add: list_all_iff)
  with \<open>strip s \<noteq> []\<close> show False
    by (simp add: strip_def strip_with_def)
qed

lemma join_not_blank:
  "x \<in> set xs \<Longrightarrow> \<not> list_all P x \<Longrightarrow> \<not> list_all P (join sep xs)"
  by (induction sep xs rule: join.induct) auto


section \<open>Detail extractor\<close>

lemma split1_no_sep: "c \<notin> set s \<Longrightarrow> split1 [c] s = [s]"
  by (induction s) auto

lemma page_title_stripped: "strip (page_title soup) = page_title soup"
proof (cases "select_one (\<lambda>n. has_class ''title-font'' n \<or> has_class ''list-group-title'' n) soup")
  case None
  then show ?thesis by (simp add: page_title_def strip_def strip_with_def)
next
  case (Some e)
  then show ?thesis by (simp add: page_title_def strip_get_text_strip)
qed

text \<open>
  C10. When the text of the title element has no space in it, the detail extractor
  returns that whole text both as the number and as the title of the entry; the number
  is then empty only if the title text is.
\<close>

theorem title_without_space:
  assumes "32 \<notin> set (page_title soup)"
    and "parse_detail_page (Some soup) = Some d"
  shows "d_number d = page_title soup \<and> d_title d = page_title soup \<and>
         (page_title soup \<noteq> [] \<longrightarrow> d_number d \<noteq> [])"
proof -
  have "split_title (page_title soup) = (page_title soup, page_title soup)"
  proof (cases "page_title soup = []")
    case True
    then show ?thesis
      by (simp add: split_title_def strip_def strip_with_def)
  next
    case False
    with assms(1) show ?thesis
      by (simp add: split_title_def ascii_def split1_no_sep page_title_stripped)
  qed
  with assms(2) show ?thesis
    by (auto simp add: parse_detail_page_def)
qed

theorem title_without_space_witness:
  "32 \<notin> set (page_title title_only_page)
   \<and> page_title title_only_page = ascii ''1.1.1''
   \<and> map_option d_number (parse_detail_page (Some title_only_page)) = Some (ascii ''1.1.1'')
   \<and> map_option d_title (parse_detail_page (Some title_only_page)) = Some (ascii ''1.1.1'')"
proof -
  have t: "page_title title_only_page = ascii ''1.1.1''"
    by (simp add: page_title_def title_only_page_def select_one_def select_def select_ctx_def
        has_class_def get_text_strip_def stripped_strings_def strip_def strip_with_def
        isspace_def ascii_def)
  then have ns: "32 \<notin> set (page_title title_only_page)"
    by (simp add: ascii_def)
  obtain d where d: "parse_detail_page (Some title_only_page) = Some d"
    by (simp add: parse_detail_page_def)
  from title_without_space [OF ns d] t d show ?thesis
    using ns by simp
qed

lemma dict_set_values:
  "\<forall>(k, v) \<in> set d. Q v \<Longrightarrow> Q v0 \<Longrightarrow> \<forall>(k, v) \<in> set (dict_set k0 v0 d). Q v"
  by (induction d) (auto split: if_splits)

lemma add_region_values:
  assumes "\<forall>(k, v) \<in> set secs. \<not> list_all isspace v"
  shows "\<forall>(k, v) \<in> set (add_region region secs). \<not> list_all isspace v"
proof -
  have "\<forall>(k, v) \<in> set (dict_set name ct secs). \<not> list_all isspace v"
    if "strip ct \<noteq> []" for name ct
    using assms strip_not_blank [OF that] by (rule dict_set_values)
  with assms show ?thesis
    by (simp add: add_region_def Let_def split: option.splits)
qed

lemma fold_add_region_values:
  "\<forall>(k, v) \<in> set secs. \<not> list_all isspace v \<Longrightarrow>
     \<forall>(k, v) \<in> set (fold add_region regions secs). \<not> list_all isspace v"
proof (induction regions arbitrary: secs)
  case Nil
  then show ?case by simp
next
  case (Cons region regions)
  from Cons.IH [OF add_region_values [OF Cons.prems]] show ?case
    by simp
qed

lemma summary_item_not_blank:
  "x \<in> set (summary_item item) \<Longrightarrow> \<not> list_all isspace x"
  by (auto simp add: summary_item_def Let_def ascii_def isspace_def
      dest: get_text_strip_not_blank split: option.splits if_splits)

lemma summary_content_not_blank:
  assumes "summary_content soup \<noteq> []"
  shows "\<not> list_all isspace (summary_content soup)"
proof (cases "select_one (has_id ''sutra-summary-region'') soup")
  case None
  with assms show ?thesis by (simp add: summary_content_def)
next
  case (Some region)
  let ?items = "concat (map summary_item
      (select (\<lambda>n. has_class ''list-group-item'' n \<or> has_class ''row'' n) region))"
  from assms Some have ne: "?items \<noteq> []" and eq: "summary_content soup = join [10, 10] ?items"
    by (auto simp add: summary_content_def Let_def split: if_splits)
  from ne obtain x where x: "x \<in> set ?items"
    by (cases ?items) auto
  then have "\<not> list_all isspace x"
    by (auto dest: summary_item_not_blank)
  with x show ?thesis
    unfolding eq by (rule join_not_blank)
qed

text \<open>
  C8. No value of the sections mapping that the detail extractor returns is empty or
  made of whitespace only, the summary section included.
\<close>

theorem sections_not_blank:
  assumes "parse_detail_page page = Some d"
  shows "\<forall>(k, v) \<in> set (d_sections d). \<not> list_all isspace v"
proof -
  from assms obtain soup where d: "d_sections d = detail_sections soup"
    by (auto simp add: parse_detail_page_def split: option.splits)
  have "\<forall>(k, v) \<in> set (if summary_content soup \<noteq> []
      then dict_set SUMMARY_KEY (summary_content soup) [] else []). \<not> list_all isspace v"
    using summary_content_not_blank [of soup] by simp
  then show ?thesis
    unfolding d detail_sections_def Let_def by (rule fold_add_region_values)
qed

lemmas dom_defs = select_one_def select_def select_ctx_def has_class_def has_tag_def has_id_def
  get_text_strip_def stripped_strings_def href_or_empty_def

theorem sections_not_blank_witness:
  "map fst (detail_sections sample_detail_page) = [SUMMARY_KEY, ascii ''Kashika'']
   \<and> \<not> list_all isspace (snd (detail_sections sample_detail_page ! 0))
   \<and> \<not> list_all isspace (snd (detail_sections sample_detail_page ! 1))"
proof -
  have keys: "map fst (detail_sections sample_detail_page) = [SUMMARY_KEY, ascii ''Kashika'']"
    by (simp add: detail_sections_def sample_detail_page_def summary_content_def
        summary_item_def commentary_region_def endswith_def add_region_def rstrip_with_def
        SUMMARY_KEY_def dom_defs text_defs)
  then have len: "length (detail_sections sample_detail_page) = 2"
    by (metis length_map length_Cons list.size(3) numeral_2_eq_2)
  obtain d where d: "parse_detail_page (Some sample_detail_page) = Some d"
    and secs: "d_sections d = detail_sections sample_detail_page"
    by (simp add: parse_detail_page_def)
  from sections_not_blank [OF d]
  have "\<forall>(k, v) \<in> set (detail_sections sample_detail_page). \<not> list_all isspace v"
    by (simp add: secs)
  moreover have "detail_sections sample_detail_page ! 0 \<in> set (detail_sections sample_detail_page)"
    "detail_sections sample_detail_page ! 1 \<in> set (detail_sections sample_detail_page)"
    using len by simp_all
  ultimately show ?thesis
    using keys by (auto simp add: case_prod_unfold)
qed


section \<open>Scraping a book\<close>

lemma limit_exceeded_mono: "\<not> limit_exceeded limit j \<Longrightarrow> i \<le> j \<Longrightarrow> \<not> limit_exceeded limit i"
  by (auto simp add: limit_exceeded_def split: option.splits)

lemma scrape_entries_nth:
  "k < length datas \<Longrightarrow> \<not> limit_exceeded limit (i + k) \<Longrightarrow>
     k < length (scrape_entries limit pages i datas) \<and>
     scrape_entries limit pages i datas ! k =
       build_entry (i + k) (datas ! k) (parse_detail_page (pages (l_url (datas ! k))))"
proof (induction datas arbitrary: i k)
  case Nil
  then show ?case by simp
next
  case (Cons data datas)
  have here: "\<not> limit_exceeded limit i"
    using Cons.prems(2) by (rule limit_exceeded_mono) simp
  show ?case
  proof (cases k)
    case 0
    with here show ?thesis by simp
  next
    case (Suc k')
    with Cons.prems have "k' < length datas" "\<not> limit_exceeded limit (i + 1 + k')"
      by simp_all
    from Cons.IH [OF this] here Suc show ?thesis
      by simp
  qed
qed

lemma build_entry_no_detail:
  "build_entry i data None =
     \<lparr>number = (if l_number data = [] then str_nat i else l_number data),
      title = l_title data, url = l_url data, content = [], sections = [],
      entry_notes = l_notes data, metadata = l_metadata data\<rparr>"
  by (simp add: build_entry_def Let_def)

lemma str_nat_1: "str_nat (Suc 0) = ascii ''1''"
  by (simp add: str_nat.simps ascii_def)

text \<open>
  C7, as the claim states it, fails for the number: an item of a simple book without
  a badge has the empty number in the listing summary, and when its detail page does
  not load the entry gets its position as number, here 1.
\<close>

theorem failed_detail_number_from_position:
  "map l_number (parse_entry_links plain_digits None (ascii ''shivasutra'') shiva_page) = [[]]
   \<and> map_sum id (\<lambda>book. map (\<lambda>ch. map number (ch_entries ch)) (chapters book))
        (scrape_book plain_digits None offline_browser (ascii ''shivasutra''))
       = Inr [[ascii ''1'']]"
proof -
  have data: "parse_entry_links plain_digits None (ascii ''shivasutra'') shiva_page =
      [\<lparr>l_number = [], l_title = ascii ''aiun'',
        l_url = ascii ''https://ashtadhyayi.com/shivasutra/1'', l_notes = [], l_metadata = [],
        l_sutra = None\<rparr>]"
    by (simp add: parse_entry_links_def entry_items_def shiva_page_def parse_single_entry_def
        flat_entry_def BASE_URL_def strip_def strip_with_def isspace_def ascii_def dom_defs)
  have cfg: "map_of BOOK_CONFIGS (ascii ''shivasutra'') =
      Some (ascii ''https://ashtadhyayi.com/shivasutra/'', False, ascii ''flat'')"
    by (simp add: BOOK_CONFIGS_def ascii_def)
  show ?thesis
    by (simp add: data cfg scrape_book_def offline_browser_def Let_def case_prod_unfold
        parse_detail_page_def build_entry_def limit_exceeded_def str_nat_1)
qed

text \<open>
  C7, amended. When the detail page of an entry does not load, the detail result is
  absent, the run still returns the book, and the entry is in it with empty content
  and no sections; its title, URL, notes and metadata are those of the listing summary,
  and so is its number unless the listing summary has none, in which case the number
  is the position of the entry.
\<close>

theorem failed_detail_keeps_entry:
  assumes "map_of BOOK_CONFIGS book_name = Some (book_url, has_infinite_scroll, organize_by)"
    and "driver_starts br" and "main_page br = Some html"
    and "entries_data = parse_entry_links int_ok limit book_name
           (if has_infinite_scroll then scrolled_page br else html)"
    and "k < length entries_data" and "\<not> limit_exceeded limit (k + 1)"
    and "detail_pages br (l_url (entries_data ! k)) = None"
  shows "parse_detail_page (detail_pages br (l_url (entries_data ! k))) = None
    \<and> (\<exists>book ch.
         scrape_book int_ok limit br book_name = Inr book \<and> chapters book = [ch] \<and>
         k < length (ch_entries ch) \<and>
         ch_entries ch ! k =
           \<lparr>number = (if l_number (entries_data ! k) = [] then str_nat (k + 1)
                       else l_number (entries_data ! k)),
            title = l_title (entries_data ! k), url = l_url (entries_data ! k),
            content = [], sections = [],
            entry_notes = l_notes (entries_data ! k), metadata = l_metadata (entries_data ! k)\<rparr>)"
proof -
  have none: "parse_detail_page (detail_pages br (l_url (entries_data ! k))) = None"
    using assms(7) by (simp add: parse_detail_page_def)
  have lim: "\<not> limit_exceeded limit (1 + k)"
    using assms(6) by (simp add: add.commute)
  note nth = scrape_entries_nth [OF assms(5) lim, of "detail_pages br"]
  obtain t s f where hdr: "parse_main_page_header
      (if has_infinite_scroll then scrolled_page br else html) = (t, s, f)"
    by (cases "parse_main_page_header (if has_infinite_scroll then scrolled_page br else html)")
  let ?chapter = "\<lparr>ch_number = ascii ''1'', ch_name = book_name, ch_url = book_url,
      ch_entries = scrape_entries limit (detail_pages br) 1 entries_data\<rparr>"
  have "scrape_book int_ok limit br book_name =
      Inr \<lparr>b_name = book_name, sanskrit_name = t, header_shlokas = s, footer_title = f,
           base_url = book_url, book_type = book_name, chapters = [?chapter]\<rparr>"
    using assms(1-4) hdr by (simp add: scrape_book_def Let_def)
  moreover have "k < length (ch_entries ?chapter)"
    using nth by simp
  moreover have "ch_entries ?chapter ! k =
      \<lparr>number = (if l_number (entries_data ! k) = [] then str_nat (k + 1)
                  else l_number (entries_data ! k)),
       title = l_title (entries_data ! k), url = l_url (entries_data ! k),
       content = [], sections = [],
       entry_notes = l_notes (entries_data ! k), metadata = l_metadata (entries_data ! k)\<rparr>"
    using nth none by (simp add: build_entry_no_detail add.commute)
  ultimately show ?thesis
    using none by auto
qed

theorem failed_detail_keeps_entry_witness:
  "map_of BOOK_CONFIGS (ascii ''shivasutra'') =
      Some (ascii ''https://ashtadhyayi.com/shivasutra/'', False, ascii ''flat'')
   \<and> driver_starts offline_browser \<and> main_page offline_browser = Some shiva_page
   \<and> length (parse_entry_links plain_digits (Some 5) (ascii ''shivasutra'') shiva_page) = 1
   \<and> (\<exists>book ch.
        scrape_book plain_digits (Some 5) offline_browser (ascii ''shivasutra'') = Inr book \<and>
        chapters book = [ch] \<and>
        ch_entries ch =
          [\<lparr>number = ascii ''1'', title = ascii ''aiun'',
            url = ascii ''https://ashtadhyayi.com/shivasutra/1'', content = [], sections = [],
            entry_notes = [], metadata = []\<rparr>])"
proof -
  let ?data = "parse_entry_links plain_digits (Some 5) (ascii ''shivasutra'') shiva_page"
  have data: "?data =
      [\<lparr>l_number = [], l_title = ascii ''aiun'',
        l_url = ascii ''https://ashtadhyayi.com/shivasutra/1'', l_notes = [], l_metadata = [],
        l_sutra = None\<rparr>]"
    by (simp add: parse_entry_links_def entry_items_def shiva_page_def parse_single_entry_def
        flat_entry_def BASE_URL_def strip_def strip_with_def isspace_def ascii_def dom_defs
        limit_reached_def)
  have cfg: "map_of BOOK_CONFIGS (ascii ''shivasutra'') =
      Some (ascii ''https://ashtadhyayi.com/shivasutra/'', False, ascii ''flat'')"
    by (simp add: BOOK_CONFIGS_def ascii_def)
  have a2: "driver_starts offline_browser" and a3: "main_page offline_browser = Some shiva_page"
    by (simp_all add: offline_browser_def)
  have a4: "?data = parse_entry_links plain_digits (Some 5) (ascii ''shivasutra'')
      (if False then scrolled_page offline_browser else shiva_page)"
    by simp
  have a5: "0 < length ?data"
    by (simp add: data)
  have a6: "\<not> limit_exceeded (Some 5) (0 + 1)"
    by (simp add: limit_exceeded_def)
  have a7: "detail_pages offline_browser (l_url (?data ! 0)) = None"
    by (simp add: offline_browser_def)
  from failed_detail_keeps_entry [OF cfg a2 a3 a4 a5 a6 a7]
  obtain book ch where b:
    "scrape_book plain_digits (Some 5) offline_browser (ascii ''shivasutra'') = Inr book"
    "chapters book = [ch]" "0 < length (ch_entries ch)"
    "ch_entries ch ! 0 =
       \<lparr>number = (if l_number (?data ! 0) = [] then str_nat (0 + 1) else l_number (?data ! 0)),
        title = l_title (?data ! 0), url = l_url (?data ! 0), content = [], sections = [],
        entry_notes = l_notes (?data ! 0), metadata = l_metadata (?data ! 0)\<rparr>"
    by blast
  have "length (ch_entries ch) = 1"
    using b(1,2) cfg
    by (auto simp add: scrape_book_def offline_browser_def Let_def case_prod_unfold data
        limit_exceeded_def)
  with b(3,4) have "ch_entries ch =
      [\<lparr>number = ascii ''1'', title = ascii ''aiun'',
        url = ascii ''https://ashtadhyayi.com/shivasutra/1'', content = [], sections = [],
        entry_notes = [], metadata = []\<rparr>]"
    by (cases "ch_entries ch") (simp_all add: data str_nat_1)
  with b(1,2) cfg a2 a3 data show ?thesis
    by simp
qed

section \<open>Output paths are distinct\<close>

lemma split_no_sep: "c \<notin> set s \<Longrightarrow> split [c] s = [s]"
  by (induction s) auto

lemma split_append_sep: "c \<notin> set x \<Longrightarrow> split [c] (x @ c # r) = x # split [c] r"
  by (induction x) auto

lemma split_not_Nil: "split sep s \<noteq> []"
  by (induction s) (auto split: list.splits)

lemma join_split: "join [c] (split [c] s) = s"
proof (induction s)
  case Nil
  then show ?case by simp
next
  case (Cons d s)
  show ?case
  proof (cases "d = c")
    case True
    with Cons split_not_Nil [of "[c]" s] show ?thesis
      by (cases "split [c] s") auto
  next
    case False
    with Cons split_not_Nil [of "[c]" s] show ?thesis
      by (cases "split [c] s"; cases "tl (split [c] s)") auto
  qed
qed

lemma split_join:
  "xs \<noteq> [] \<Longrightarrow> \<forall>x \<in> set xs. c \<notin> set x \<Longrightarrow> split [c] (join [c] xs) = xs"
proof (induction "[c]" xs rule: join.induct)
  case 1
  then show ?case by simp
next
  case (2 p)
  then show ?case by (simp add: split_no_sep)
next
  case (3 p q ps)
  then show ?case by (simp add: split_append_sep)
qed

lemma split_sep_length: "c \<in> set s \<Longrightarrow> 2 \<le> length (split [c] s)"
proof (induction s)
  case Nil
  then show ?case by simp
next
  case (Cons d s)
  show ?case
  proof (cases "d = c")
    case True
    with split_not_Nil [of "[c]" s] show ?thesis
      by (cases "split [c] s") auto
  next
    case False
    with Cons show ?thesis
      by (cases "split [c] s") auto
  qed
qed

lemma join_has_sep: "2 \<le> length xs \<Longrightarrow> c \<in> set (join [c] xs)"
  by (induction "[c]" xs rule: join.induct) auto

lemma join_chars: "\<forall>x \<in> set xs. list_all P x \<Longrightarrow> 2 \<le> length xs \<longrightarrow> P c \<Longrightarrow> list_all P (join [c] xs)"
  by (induction "[c]" xs rule: join.induct) auto

lemma append_sep_inject:
  "c \<notin> set x \<Longrightarrow> c \<notin> set y \<Longrightarrow> x @ c # r = y @ c # r' \<Longrightarrow> x = y \<and> r = r'"
proof (induction x arbitrary: y)
  case Nil
  then show ?case by (cases y) auto
next
  case (Cons a x)
  then show ?case by (cases y) auto
qed

lemma replicate_2: "replicate 2 x = [x, x]"
  by (simp add: numeral_2_eq_2)

lemma wf_segment_zfill:
  "wf_segment s \<Longrightarrow> zfill w s = replicate (w - length s) 48 @ s"
  by (cases s) (auto simp add: zfill_def wf_segment_def ascii_digit_def)

lemma pad_inject:
  "wf_segment a \<Longrightarrow> wf_segment b \<Longrightarrow> replicate m 48 @ a = replicate n 48 @ b \<Longrightarrow> a = b"
proof (induction m arbitrary: n)
  case 0
  show ?case
  proof (cases n)
    case 0
    with "0.prems" show ?thesis by simp
  next
    case (Suc n')
    with "0.prems"(3) have a: "a = 48 # replicate n' 48 @ b"
      by simp
    with "0.prems"(2) have "1 < length a" "hd a = 48"
      by (simp_all add: wf_segment_def)
    with "0.prems"(1) show ?thesis
      by (simp add: wf_segment_def)
  qed
next
  case (Suc m)
  show ?case
  proof (cases n)
    case 0
    with Suc.prems(3) have b: "b = 48 # replicate m 48 @ a"
      by simp
    with Suc.prems(1) have "1 < length b" "hd b = 48"
      by (simp_all add: wf_segment_def)
    with Suc.prems(2) show ?thesis
      by (simp add: wf_segment_def)
  next
    case (Suc n')
    with Suc.prems Suc.IH [of n'] show ?thesis
      by simp
  qed
qed

lemma zfill_inject:
  "wf_segment a \<Longrightarrow> wf_segment b \<Longrightarrow> zfill w a = zfill v b \<Longrightarrow> a = b"
  using pad_inject [of a b "w - length a" "v - length b"] by (simp add: wf_segment_zfill)

lemma zfill_raw_inject:
  "wf_segment a \<Longrightarrow> wf_segment b \<Longrightarrow> zfill w a = b \<Longrightarrow> a = b"
  using pad_inject [of a b "w - length a" 0] by (simp add: wf_segment_zfill)

lemma map_zfill_inject:
  "list_all wf_segment xs \<Longrightarrow> list_all wf_segment ys \<Longrightarrow>
     map (zfill w) xs = map (zfill w) ys \<Longrightarrow> xs = ys"
proof (induction xs arbitrary: ys)
  case Nil
  then show ?case by simp
next
  case (Cons x xs)
  then show ?case by (cases ys) (auto dest: zfill_inject)
qed

lemma zfill_digits: "wf_segment s \<Longrightarrow> list_all ascii_digit (zfill w s)"
  by (auto simp add: wf_segment_zfill wf_segment_def list_all_iff ascii_digit_def)

lemma digits_no_char: "list_all ascii_digit s \<Longrightarrow> c < 48 \<or> 57 < c \<Longrightarrow> c \<notin> set s"
  by (auto simp add: list_all_iff ascii_digit_def)

text \<open>The part of the flat file name between \<open>entry_\<close> and \<open>.md\<close>.\<close>

lemma flat_body_inject:
  assumes wa: "wf_number a" and wb: "wf_number b"
    and eq: "(if 46 \<in> set a then join [95] (map (zfill 2) (split [46] a))
              else if isdigit D a then zfill 2 a else a) =
             (if 46 \<in> set b then join [95] (map (zfill 2) (split [46] b))
              else if isdigit D b then zfill 2 b else b)"
  shows "a = b"
proof -
  have sa: "list_all wf_segment (split [46] a)" and sb: "list_all wf_segment (split [46] b)"
    using wa wb by (simp_all add: wf_number_def ascii_def)
  have digits: "\<forall>x \<in> set (map (zfill 2) ps). 95 \<notin> set x" if "list_all wf_segment ps" for ps
  proof
    fix x
    assume "x \<in> set (map (zfill 2) ps)"
    then obtain p where "p \<in> set ps" "x = zfill 2 p"
      by auto
    with that have "wf_segment p" "x = zfill 2 p"
      by (simp_all add: list_all_iff)
    then have "list_all ascii_digit x"
      by (simp add: zfill_digits)
    then show "95 \<notin> set x"
      by (rule digits_no_char) simp
  qed
  have single: "wf_segment s" "95 \<notin> set s" "95 \<notin> set (zfill 2 s)"
    if "46 \<notin> set s" "list_all wf_segment (split [46] s)" for s
  proof -
    from that show "wf_segment s"
      by (simp add: split_no_sep)
    then have "list_all ascii_digit s" "list_all ascii_digit (zfill 2 s)"
      by (simp_all add: zfill_digits wf_segment_def)
    then show "95 \<notin> set s" "95 \<notin> set (zfill 2 s)"
      by (simp_all add: digits_no_char)
  qed
  consider (dots) "46 \<in> set a" "46 \<in> set b" | (left) "46 \<in> set a" "46 \<notin> set b"
    | (right) "46 \<notin> set a" "46 \<in> set b" | (none) "46 \<notin> set a" "46 \<notin> set b"
    by blast
  then show ?thesis
  proof cases
    case dots
    with eq have j: "join [95] (map (zfill 2) (split [46] a)) = join [95] (map (zfill 2) (split [46] b))"
      by simp
    have "split [95] (join [95] (map (zfill 2) (split [46] a))) = map (zfill 2) (split [46] a)"
      using digits [OF sa] by (intro split_join) (simp_all add: split_not_Nil)
    moreover have "split [95] (join [95] (map (zfill 2) (split [46] b))) = map (zfill 2) (split [46] b)"
      using digits [OF sb] by (intro split_join) (simp_all add: split_not_Nil)
    ultimately have "map (zfill 2) (split [46] a) = map (zfill 2) (split [46] b)"
      using j by (metis (no_types))
    then have "split [46] a = split [46] b"
      using sa sb by (rule map_zfill_inject [rotated 2])
    then have "join [46] (split [46] a) = join [46] (split [46] b)"
      by simp
    then show ?thesis
      by (simp add: join_split)
  next
    case left
    then have "95 \<in> set (join [95] (map (zfill 2) (split [46] a)))"
      by (intro join_has_sep) (simp add: split_sep_length)
    moreover have "95 \<notin> set (if isdigit D b then zfill 2 b else b)"
      using single [OF left(2) sb] by simp
    moreover from eq left
    have "join [95] (map (zfill 2) (split [46] a)) = (if isdigit D b then zfill 2 b else b)"
      by simp
    ultimately show ?thesis
      by metis
  next
    case right
    then have "95 \<in> set (join [95] (map (zfill 2) (split [46] b)))"
      by (intro join_has_sep) (simp add: split_sep_length)
    moreover have "95 \<notin> set (if isdigit D a then zfill 2 a else a)"
      using single [OF right(1) sa] by simp
    moreover from eq right
    have "(if isdigit D a then zfill 2 a else a) = join [95] (map (zfill 2) (split [46] b))"
      by simp
    ultimately show ?thesis
      by metis
  next
    case none
    have w: "wf_segment a" "wf_segment b"
      using single(1) [OF none(1) sa] single(1) [OF none(2) sb] by simp_all
    from eq none
    have e: "(if isdigit D a then zfill 2 a else a) = (if isdigit D b then zfill 2 b else b)"
      by simp
    show ?thesis
    proof (cases "isdigit D a")
      case da: True
      show ?thesis
      proof (cases "isdigit D b")
        case True
        with da e have "zfill 2 a = zfill 2 b"
          by simp
        with w show ?thesis
          by (rule zfill_inject)
      next
        case False
        with da e have "zfill 2 a = b"
          by simp
        with w show ?thesis
          by (rule zfill_raw_inject)
      qed
    next
      case na: False
      show ?thesis
      proof (cases "isdigit D b")
        case True
        with na e have "zfill 2 b = a"
          by simp
        with w(2,1) have "b = a"
          by (rule zfill_raw_inject)
        then show ?thesis
          by simp
      next
        case False
        with na e show ?thesis
          by simp
      qed
    qed
  qed
qed

lemma deva_to_english_map: "deva_to_english s = map deva_char s"
  by (induction s) (simp_all add: deva_to_english_def)

lemma deva_dot: "46 \<in> set (deva_to_english s) \<longleftrightarrow> 46 \<in> set s"
  by (auto simp add: deva_to_english_map deva_char_ascii_equivalent ascii_equivalent_def
      split: if_splits)

lemma deva_digits: "list_all ascii_digit s \<Longrightarrow> deva_to_english s = s"
  by (induction s)
    (simp_all add: deva_to_english_map deva_char_ascii_equivalent ascii_equivalent_def
      ascii_digit_def)

lemma get_entry_filename_eq:
  "get_entry_filename D num =
     [101, 110, 116, 114, 121, 95] @
     (if 46 \<in> set (deva_to_english num)
      then join [95] (map (zfill 2) (split [46] (deva_to_english num)))
      else if isdigit D (deva_to_english num) then zfill 2 (deva_to_english num)
      else deva_to_english num) @
     [46, 109, 100]"
  by (simp add: get_entry_filename_def Let_def ascii_def)

lemma filename_inject:
  assumes "wf_number (deva_to_english a)" and "wf_number (deva_to_english b)"
    and "get_entry_filename D a = get_entry_filename D b"
  shows "deva_to_english a = deva_to_english b"
  using assms(3) unfolding get_entry_filename_eq
  by (intro flat_body_inject [OF assms(1,2), of D]) simp

lemma entry_path_eq:
  "entry_path D ob num =
     (if ob = ascii ''adhyaya_pada'' \<and> 3 \<le> length (split [46] (deva_to_english num))
      then (case split [46] (deva_to_english num) of
              p0 # p1 # p2 # rest \<Rightarrow>
                [97, 100, 104, 121, 97, 121, 97, 95] @ p0 @ 47 # [112, 97, 100, 97, 95] @ p1 @
                47 # [115, 117, 116, 114, 97, 95] @ zfill 3 p2 @ [46, 109, 100]
            | _ \<Rightarrow> get_entry_filename D num)
      else get_entry_filename D num)"
proof (cases "46 \<in> set num")
  case True
  then show ?thesis
    by (simp add: entry_path_def ascii_def split: list.splits)
next
  case False
  then have "split [46] (deva_to_english num) = [deva_to_english num]"
    by (simp add: split_no_sep deva_dot)
  with False show ?thesis
    by (simp add: entry_path_def)
qed

lemma entry_path_inject:
  assumes wa: "wf_number (deva_to_english a)" and wb: "wf_number (deva_to_english b)"
    and eq: "entry_path D ob a = entry_path D ob b"
  shows "deva_to_english a = deva_to_english b"
proof -
  let ?pa = "split [46] (deva_to_english a)" and ?pb = "split [46] (deva_to_english b)"
  have la: "length ?pa \<le> 3" "list_all wf_segment ?pa" and lb: "length ?pb \<le> 3" "list_all wf_segment ?pb"
    using wa wb by (simp_all add: wf_number_def ascii_def)
  have three: "\<exists>p0 p1 p2. ps = [p0, p1, p2]" if "length ps \<le> 3" "3 \<le> length ps" for ps :: "ustr list"
  proof -
    from that have "length ps = Suc (Suc (Suc 0))"
      by simp
    then show ?thesis
      by (auto simp add: length_Suc_conv)
  qed
  have flat_e: "hd (get_entry_filename D n) = 101" for n
    by (simp add: get_entry_filename_eq)
  consider (hier) "ob = ascii ''adhyaya_pada''" "3 \<le> length ?pa" "3 \<le> length ?pb"
    | (left) "ob = ascii ''adhyaya_pada''" "3 \<le> length ?pa" "\<not> 3 \<le> length ?pb"
    | (right) "ob = ascii ''adhyaya_pada''" "\<not> 3 \<le> length ?pa" "3 \<le> length ?pb"
    | (flat) "\<not> (ob = ascii ''adhyaya_pada'' \<and> 3 \<le> length ?pa)"
        "\<not> (ob = ascii ''adhyaya_pada'' \<and> 3 \<le> length ?pb)"
    by blast
  then show ?thesis
  proof cases
    case hier
    from three [OF la(1) hier(2)] obtain a0 a1 a2 where pa: "?pa = [a0, a1, a2]"
      by blast
    from three [OF lb(1) hier(3)] obtain b0 b1 b2 where pb: "?pb = [b0, b1, b2]"
      by blast
    from la(2) pa have wfa: "wf_segment a0" "wf_segment a1" "wf_segment a2"
      by simp_all
    from lb(2) pb have wfb: "wf_segment b0" "wf_segment b1" "wf_segment b2"
      by simp_all
    have no_slash: "47 \<notin> set s" if "wf_segment s" for s
      using that by (simp add: wf_segment_def digits_no_char)
    from eq hier pa pb
    have e0: "a0 @ 47 # ([112, 97, 100, 97, 95] @ a1 @
          47 # [115, 117, 116, 114, 97, 95] @ zfill 3 a2 @ [46, 109, 100]) =
        b0 @ 47 # ([112, 97, 100, 97, 95] @ b1 @
          47 # [115, 117, 116, 114, 97, 95] @ zfill 3 b2 @ [46, 109, 100])"
      by (simp add: entry_path_eq)
    from append_sep_inject [OF no_slash [OF wfa(1)] no_slash [OF wfb(1)] e0]
    have p0: "a0 = b0"
      and e1: "a1 @ 47 # ([115, 117, 116, 114, 97, 95] @ zfill 3 a2 @ [46, 109, 100]) =
        b1 @ 47 # ([115, 117, 116, 114, 97, 95] @ zfill 3 b2 @ [46, 109, 100])"
      by simp_all
    from append_sep_inject [OF no_slash [OF wfa(2)] no_slash [OF wfb(2)] e1]
    have p1: "a1 = b1" and "zfill 3 a2 = zfill 3 b2"
      by simp_all
    with wfa(3) wfb(3) have p2: "a2 = b2"
      by (auto dest: zfill_inject)
    from pa pb p0 p1 p2 have "join [46] ?pa = join [46] ?pb"
      by simp
    then show ?thesis
      by (simp add: join_split)
  next
    case left
    from three [OF la(1) left(2)] obtain a0 a1 a2 where pa: "?pa = [a0, a1, a2]"
      by blast
    from left pa have "hd (entry_path D ob a) = 97"
      by (simp add: entry_path_eq)
    moreover from left have "hd (entry_path D ob b) = 101"
      by (simp add: entry_path_eq flat_e)
    ultimately show ?thesis
      using eq by simp
  next
    case right
    from three [OF lb(1) right(3)] obtain b0 b1 b2 where pb: "?pb = [b0, b1, b2]"
      by blast
    from right pb have "hd (entry_path D ob b) = 97"
      by (simp add: entry_path_eq)
    moreover from right have "hd (entry_path D ob a) = 101"
      by (simp add: entry_path_eq flat_e)
    ultimately show ?thesis
      using eq by simp
  next
    case flat
    with eq have "get_entry_filename D a = get_entry_filename D b"
      by (simp add: entry_path_eq)
    with wa wb show ?thesis
      by (rule filename_inject)
  qed
qed

lemma str_nat_digits: "str_nat n \<noteq> [] \<and> list_all ascii_digit (str_nat n)"
proof (induction n rule: str_nat.induct)
  case (1 n)
  show ?case
  proof (cases "n < 10")
    case True
    then show ?thesis by (simp add: str_nat.simps [of n] ascii_digit_def)
  next
    case False
    moreover have "n mod 10 < 10"
      by simp
    ultimately show ?thesis
      using 1 by (simp add: str_nat.simps [of n] ascii_digit_def)
  qed
qed

lemma str_nat_hd: "0 < n \<Longrightarrow> hd (str_nat n) \<noteq> 48"
proof (induction n rule: str_nat.induct)
  case (1 n)
  show ?case
  proof (cases "n < 10")
    case True
    with 1(2) show ?thesis by (simp add: str_nat.simps [of n])
  next
    case False
    then have "0 < n div 10"
      by simp
    with 1(1) False have "hd (str_nat (n div 10)) \<noteq> 48"
      by simp
    with False str_nat_digits [of "n div 10"] show ?thesis
      by (simp add: str_nat.simps [of n])
  qed
qed

lemma str_nat_wf: "wf_segment (str_nat n)"
proof (cases "n < 10")
  case True
  then show ?thesis
    by (simp add: wf_segment_def str_nat.simps [of n] ascii_digit_def)
next
  case False
  then show ?thesis
    using str_nat_digits [of n] str_nat_hd [of n] by (simp add: wf_segment_def)
qed

lemma str_nat_inject: "str_nat m = str_nat n \<Longrightarrow> m = n"
proof (induction m arbitrary: n rule: str_nat.induct)
  case (1 m)
  show ?case
  proof (cases "m < 10")
    case True
    show ?thesis
    proof (cases "n < 10")
      case True
      with \<open>m < 10\<close> "1.prems" show ?thesis
        by (simp add: str_nat.simps [of m] str_nat.simps [of n])
    next
      case False
      with \<open>m < 10\<close> "1.prems" str_nat_digits [of "n div 10"] show ?thesis
        by (simp add: str_nat.simps [of m] str_nat.simps [of n])
    qed
  next
    case False
    show ?thesis
    proof (cases "n < 10")
      case True
      with False "1.prems" str_nat_digits [of "m div 10"] show ?thesis
        by (simp add: str_nat.simps [of m] str_nat.simps [of n])
    next
      case nge: False
      with False "1.prems" have "str_nat (m div 10) = str_nat (n div 10)" "m mod 10 = n mod 10"
        by (simp_all add: str_nat.simps [of m] str_nat.simps [of n])
      with "1.IH" [OF False, of "n div 10"] have "m div 10 = n div 10" "m mod 10 = n mod 10"
        by simp_all
      then show ?thesis
        by (metis div_mult_mod_eq)
    qed
  qed
qed

lemma str_nat_wf_number: "wf_number (deva_to_english (str_nat n))"
proof -
  have "46 \<notin> set (str_nat n)"
    using str_nat_digits [of n] by (simp add: digits_no_char)
  then show ?thesis
    using str_nat_digits [of n] str_nat_wf [of n]
    by (simp add: wf_number_def deva_digits ascii_def split_no_sep)
qed

text \<open>
  C1, as the claim states it, fails. A number of four segments is not well-formed for
  the hierarchical organization, yet it does not fall back to the flat scheme: the
  path is built from the first three segments, and 1.2.3.4 and 1.2.3.5 get the same
  file. And the positional index is used only when the detail page is absent: two
  entries without a number in the listing whose detail pages load but carry no title
  both get the empty number and the file entry_.md.
\<close>

theorem paths_collide:
  "entry_path ascii_digit (organize_by_of (ascii ''sutraani'')) (ascii ''1.2.3.4'')
     = ascii ''adhyaya_1/pada_2/sutra_003.md''
   \<and> entry_path ascii_digit (organize_by_of (ascii ''sutraani'')) (ascii ''1.2.3.5'')
     = ascii ''adhyaya_1/pada_2/sutra_003.md''
   \<and> map (\<lambda>e. entry_path ascii_digit (organize_by_of (ascii ''shivasutra'')) (number e))
       (scrape_entries None (\<lambda>u. Some bare_page) 1
          [unnumbered ''/shivasutra/1'', unnumbered ''/shivasutra/2''])
     = [ascii ''entry_.md'', ascii ''entry_.md'']"
proof -
  have "parse_detail_page (Some bare_page) =
      Some \<lparr>d_number = [], d_title = [], d_content = [], d_sections = []\<rparr>"
    by (simp add: parse_detail_page_def bare_page_def page_title_def split_title_def
        main_content_def short_meaning_def detail_sections_def summary_content_def
        select_one_def select_def select_ctx_def strip_def strip_with_def)
  then show ?thesis
    by (simp add: entry_path_def get_entry_filename_def organize_by_of_def BOOK_CONFIGS_def
        ascii_def deva_to_english_def deva_char_def DEVA_TO_ENG_def zfill_def isdigit_def
        unnumbered_def build_entry_def limit_exceeded_def replicate_2)
qed

text \<open>
  C1, amended. The output path is a function of the organization mode and the entry
  number. Two numbers whose ASCII-normalized forms are well-formed (one to three
  segments separated by full stops, each a decimal numeral without superfluous leading
  zero) and different get different paths. When the listing has no number for an entry
  and its detail page does not load, the number of the entry is its positional index,
  and two such entries at different positions get different paths.
\<close>

theorem paths_distinct:
  "(wf_number (deva_to_english a) \<and> wf_number (deva_to_english b) \<and>
      deva_to_english a \<noteq> deva_to_english b \<longrightarrow>
      entry_path D ob a \<noteq> entry_path D ob b)
   \<and> (l_number d1 = [] \<and> l_number d2 = [] \<and> i \<noteq> j \<longrightarrow>
        number (build_entry i d1 None) = str_nat i \<and>
        number (build_entry j d2 None) = str_nat j \<and>
        entry_path D ob (number (build_entry i d1 None)) \<noteq>
        entry_path D ob (number (build_entry j d2 None)))"
proof (intro conjI impI)
  assume "wf_number (deva_to_english a) \<and> wf_number (deva_to_english b) \<and>
      deva_to_english a \<noteq> deva_to_english b"
  then show "entry_path D ob a \<noteq> entry_path D ob b"
    using entry_path_inject [of a b D ob] by blast
next
  assume h: "l_number d1 = [] \<and> l_number d2 = [] \<and> i \<noteq> j"
  then show n1: "number (build_entry i d1 None) = str_nat i"
    and n2: "number (build_entry j d2 None) = str_nat j"
    by (simp_all add: build_entry_no_detail)
  have "deva_to_english (str_nat i) \<noteq> deva_to_english (str_nat j)"
    using h str_nat_digits [of i] str_nat_digits [of j] str_nat_inject [of i j]
    by (auto simp add: deva_digits)
  then show "entry_path D ob (number (build_entry i d1 None)) \<noteq>
      entry_path D ob (number (build_entry j d2 None))"
    unfolding n1 n2
    using entry_path_inject [OF str_nat_wf_number str_nat_wf_number, of D ob i j] by blast
qed

theorem paths_distinct_witness:
  "wf_number (deva_to_english [2407, 46, 2408]) \<and> wf_number (deva_to_english (ascii ''1.3''))
   \<and> deva_to_english [2407, 46, 2408] \<noteq> deva_to_english (ascii ''1.3'')
   \<and> entry_path ascii_digit (ascii ''flat'') [2407, 46, 2408]
       \<noteq> entry_path ascii_digit (ascii ''flat'') (ascii ''1.3'')
   \<and> l_number (unnumbered ''/shivasutra/1'') = [] \<and> l_number (unnumbered ''/shivasutra/2'') = []
   \<and> entry_path ascii_digit (ascii ''flat'')
         (number (build_entry 1 (unnumbered ''/shivasutra/1'') None))
       \<noteq> entry_path ascii_digit (ascii ''flat'')
         (number (build_entry 2 (unnumbered ''/shivasutra/2'') None))"
proof -
  have d: "deva_to_english [2407, 46, 2408] = ascii ''1.2''" "deva_to_english (ascii ''1.3'') = ascii ''1.3''"
    by (simp_all add: deva_to_english_def deva_char_def DEVA_TO_ENG_def ascii_def)
  have w: "wf_number (ascii ''1.2'')" "wf_number (ascii ''1.3'')"
    by (simp_all add: wf_number_def wf_segment_def ascii_digit_def ascii_def)
  have ne: "ascii ''1.2'' \<noteq> ascii ''1.3''"
    by (simp add: ascii_def)
  have h1: "wf_number (deva_to_english [2407, 46, 2408]) \<and> wf_number (deva_to_english (ascii ''1.3'')) \<and>
      deva_to_english [2407, 46, 2408] \<noteq> deva_to_english (ascii ''1.3'')"
    using d w ne by simp
  have h2: "l_number (unnumbered ''/shivasutra/1'') = [] \<and> l_number (unnumbered ''/shivasutra/2'') = [] \<and>
      (1::nat) \<noteq> 2"
    by (simp add: unnumbered_def)
  note inst = paths_distinct [of "[2407, 46, 2408]" "ascii ''1.3''" ascii_digit "ascii ''flat''"
      "unnumbered ''/shivasutra/1''" "unnumbered ''/shivasutra/2''" 1 2]
  from inst h1 have "entry_path ascii_digit (ascii ''flat'') [2407, 46, 2408]
       \<noteq> entry_path ascii_digit (ascii ''flat'') (ascii ''1.3'')"
    by blast
  moreover from inst h2 have "entry_path ascii_digit (ascii ''flat'')
         (number (build_entry 1 (unnumbered ''/shivasutra/1'') None))
       \<noteq> entry_path ascii_digit (ascii ''flat'')
         (number (build_entry 2 (unnumbered ''/shivasutra/2'') None))"
    by blast
  ultimately show ?thesis
    using h1 h2 by blast
qed

section \<open>Running the transformer on its own output\<close>












subsection \<open>Single spaces\<close>















subsection \<open>At most two newlines\<close>










subsection \<open>No whitespace before punctuation\<close>








subsection \<open>The second run\<close>




end
